theory Spec2Isabelle
  imports Complex_Main "HOL-Library.AList" "HOL-Library.Multiset" "HOL-Library.Sublist"
begin

section \<open>Python values as the application sees them\<close>

text \<open>
  Every record the application works on is the result of \<^verbatim>\<open>json.loads\<close> on text written
  by a language model, so a field may hold any JSON value. A Python \<^verbatim>\<open>dict\<close> is an
  association list in insertion order; \<^verbatim>\<open>d[k] = v\<close> is \<open>AList.update\<close>, which replaces the
  value of an existing key in place and appends a new key at the end, as a Python dict
  does. A Python \<^verbatim>\<open>int\<close> is \<open>JInt\<close>, of any size; a \<^verbatim>\<open>float\<close> is \<open>JFloat\<close>, which carries
  the real number the double stands for. NaN and the infinities are outside the model.
  A Python \<^verbatim>\<open>str\<close> is a \<open>string\<close>, one \<open>char\<close> standing for one code point.
\<close>

datatype json =
    JNull
  | JBool bool
  | JInt int
  | JFloat real
  | JStr string
  | JArr "json list"
  | JObj "(string \<times> json) list"

type_synonym pydict = "(string \<times> json) list"

datatype py_error = TypeError | ValueError | AttributeError | OverflowError

text \<open>
  Arithmetic on doubles is the interpreter's business and a parameter of the model, like
  the reading of strings below: \<open>rnd\<close> takes a real number to the double nearest to it,
  which is what a float literal, the conversion of an integer and each of the four
  operations on doubles produce; \<open>hypot\<close> is \<^verbatim>\<open>math.hypot\<close>. Nothing is assumed of either.
  An integer converts to a double when it lies below the limit at which the nearest
  double would be infinite; from there on \<^verbatim>\<open>float\<close> raises OverflowError.
\<close>

record float_ops =
  rnd :: "real \<Rightarrow> real"
  hypot :: "real \<Rightarrow> real \<Rightarrow> real"

definition float_limit :: int where
  "float_limit = 2 ^ 1024 - 2 ^ 970"

text \<open>
  The arithmetic that never rounds. It is used below to evaluate the code on inputs whose
  numbers stay clear of every comparison the code makes, so that doubles decide alike.
\<close>

definition exact_ops :: float_ops where
  "exact_ops = \<lparr>rnd = (\<lambda>x. x), hypot = (\<lambda>x y. sqrt (x\<^sup>2 + y\<^sup>2))\<rparr>"

text \<open>Truth value of an object, as \<^verbatim>\<open>if x\<close>, \<^verbatim>\<open>not x\<close> and \<^verbatim>\<open>x or y\<close> test it.\<close>

fun truthy :: "json \<Rightarrow> bool" where
  "truthy JNull = False"
| "truthy (JBool b) = b"
| "truthy (JInt n) = (n \<noteq> 0)"
| "truthy (JFloat r) = (r \<noteq> 0)"
| "truthy (JStr s) = (s \<noteq> [])"
| "truthy (JArr xs) = (xs \<noteq> [])"
| "truthy (JObj kv) = (kv \<noteq> [])"

definition py_or :: "json \<Rightarrow> json \<Rightarrow> json" where
  "py_or v w = (if truthy v then v else w)"

text \<open>\<^verbatim>\<open>d.get(k, default)\<close>; \<^verbatim>\<open>d.get(k)\<close> is \<open>dict_get d k JNull\<close>.\<close>

definition dict_get :: "pydict \<Rightarrow> string \<Rightarrow> json \<Rightarrow> json" where
  "dict_get d k dflt = (case map_of d k of None \<Rightarrow> dflt | Some v \<Rightarrow> v)"

text \<open>
  \<^verbatim>\<open>float(v)\<close>. A double is returned as it is and an integer is converted. What
  \<^verbatim>\<open>float\<close> reads from a string is the interpreter's business, so it is the parameter
  \<open>F\<close>: \<open>F s = None\<close> where \<^verbatim>\<open>float(s)\<close> raises ValueError.
\<close>

fun py_float :: "float_ops \<Rightarrow> (string \<Rightarrow> real option) \<Rightarrow> json \<Rightarrow> py_error + real" where
  "py_float A F (JFloat r) = Inr r"
| "py_float A F (JInt n) =
     (if \<bar>n\<bar> < float_limit then Inr (rnd A (of_int n)) else Inl OverflowError)"
| "py_float A F (JBool b) = Inr (if b then 1 else 0)"
| "py_float A F (JStr s) = (case F s of None \<Rightarrow> Inl ValueError | Some r \<Rightarrow> Inr r)"
| "py_float A F JNull = Inl TypeError"
| "py_float A F (JArr xs) = Inl TypeError"
| "py_float A F (JObj kv) = Inl TypeError"

text \<open>
  \<^verbatim>\<open>int(v)\<close>: a float is truncated towards zero, an integer is returned as it is; a
  string is read by the interpreter, the parameter \<open>I\<close>.
\<close>

definition py_trunc :: "real \<Rightarrow> int" where
  "py_trunc r = (if 0 \<le> r then \<lfloor>r\<rfloor> else \<lceil>r\<rceil>)"

fun py_int :: "(string \<Rightarrow> int option) \<Rightarrow> json \<Rightarrow> py_error + int" where
  "py_int I (JFloat r) = Inr (py_trunc r)"
| "py_int I (JInt n) = Inr n"
| "py_int I (JBool b) = Inr (if b then 1 else 0)"
| "py_int I (JStr s) = (case I s of None \<Rightarrow> Inl ValueError | Some n \<Rightarrow> Inr n)"
| "py_int I JNull = Inl TypeError"
| "py_int I (JArr xs) = Inl TypeError"
| "py_int I (JObj kv) = Inl TypeError"

text \<open>\<^verbatim>\<open>round(x)\<close> on a float: the nearest integer, a tie going to the even one.\<close>

definition py_round :: "real \<Rightarrow> int" where
  "py_round x =
     (let f = \<lfloor>x\<rfloor>; d = x - of_int f
      in if d < 1 / 2 then f
         else if 1 / 2 < d then f + 1
         else if even f then f else f + 1)"

text \<open>
  What \<^verbatim>\<open>for x in v\<close> and \<^verbatim>\<open>*v\<close> run over: the items of a list, the characters of a
  string, the keys of a dict; anything else is not iterable.
\<close>

fun py_iter :: "json \<Rightarrow> py_error + json list" where
  "py_iter (JArr xs) = Inr xs"
| "py_iter (JStr s) = Inr (map (\<lambda>c. JStr [c]) s)"
| "py_iter (JObj kv) = Inr (map (\<lambda>p. JStr (fst p)) kv)"
| "py_iter JNull = Inl TypeError"
| "py_iter (JBool b) = Inl TypeError"
| "py_iter (JInt n) = Inl TypeError"
| "py_iter (JFloat r) = Inl TypeError"

text \<open>
  \<^verbatim>\<open>s.lower()\<close> and \<^verbatim>\<open>s.strip()\<close> on the code points below 256: the capital letters of
  ASCII and Latin-1 move up by 32 (the bit of that value is set), and the characters
  Python counts as white space are dropped from both ends.
\<close>

definition lower_char :: "char \<Rightarrow> char" where
  "lower_char c =
     (let n = (of_char c :: nat)
      in if (65 \<le> n \<and> n \<le> 90) \<or> (192 \<le> n \<and> n \<le> 214) \<or> (216 \<le> n \<and> n \<le> 222)
         then (case c of Char b0 b1 b2 b3 b4 b5 b6 b7 \<Rightarrow> Char b0 b1 b2 b3 b4 True b6 b7)
         else c)"

definition py_lower :: "string \<Rightarrow> string" where
  "py_lower s = map lower_char s"

definition py_isspace :: "char \<Rightarrow> bool" where
  "py_isspace c =
     (let n = (of_char c :: nat)
      in (9 \<le> n \<and> n \<le> 13) \<or> (28 \<le> n \<and> n \<le> 32) \<or> n = 133 \<or> n = 160)"

definition py_strip :: "string \<Rightarrow> string" where
  "py_strip s = rev (dropWhile py_isspace (rev (dropWhile py_isspace s)))"

text \<open>Sequencing of computations that may raise: the first exception ends the run.\<close>

definition and_then :: "'e + 'a \<Rightarrow> ('a \<Rightarrow> 'e + 'b) \<Rightarrow> 'e + 'b" where
  "and_then m f = (case m of Inl e \<Rightarrow> Inl e | Inr x \<Rightarrow> f x)"

text \<open>
  How a top-level stage of the script ends: with a value, halted by \<^verbatim>\<open>st.stop()\<close> after
  the raw text was shown, or by an exception nobody catches.
\<close>

datatype 'a outcome = Returned 'a | Halted string | Raised py_error

section \<open>Score reconciliation\<close>

record dim =
  name :: string
  score :: int
  rationale :: json

definition dim_json :: "dim \<Rightarrow> json" where
  "dim_json d =
     JObj [(''name'', JStr (name d)), (''score'', JInt (score d)),
           (''rationale'', rationale d)]"

definition allowed :: "string set" where
  "allowed = {''Tone & Voice'', ''Visual Identity'', ''Brand-Product Relevance''}"

text \<open>
  One turn of the loop of \<^verbatim>\<open>valid_dims\<close>: \<open>Some\<close> the entry appended to \<^verbatim>\<open>out\<close>, \<open>None\<close>
  when the item is skipped, by the \<^verbatim>\<open>if\<close> or by the \<^verbatim>\<open>except\<close>.
\<close>

fun valid_dim :: "float_ops \<Rightarrow> (string \<Rightarrow> real option) \<Rightarrow> json \<Rightarrow> dim option" where
  "valid_dim A F (JObj d) =
     (case map_of d ''name'' of
        Some (JStr n) \<Rightarrow>
          if n \<in> allowed then
            (case py_float A F (dict_get d ''score'' (JInt 0)) of
               Inl e \<Rightarrow> None
             | Inr sc \<Rightarrow>
                 Some \<lparr>name = n, score = max 0 (min 100 (py_round sc)),
                       rationale = dict_get d ''rationale'' (JStr [])\<rparr>)
          else None
      | _ \<Rightarrow> None)"
| "valid_dim A F _ = None"

definition valid_dims ::
  "float_ops \<Rightarrow> (string \<Rightarrow> real option) \<Rightarrow> json \<Rightarrow> py_error + dim list" where
  "valid_dims A F items =
     (case py_iter (py_or items (JArr [])) of
        Inl e \<Rightarrow> Inl e
      | Inr ds \<Rightarrow> Inr (List.map_filter (valid_dim A F) ds))"

definition compute_verdict :: "int \<Rightarrow> string" where
  "compute_verdict sc =
     (if sc \<ge> 80 then ''Strong fit''
      else if sc \<ge> 60 then ''Good fit''
      else if sc \<ge> 40 then ''Borderline''
      else ''Misaligned'')"

definition reconcile_scores ::
  "float_ops \<Rightarrow> (string \<Rightarrow> real option) \<Rightarrow> (string \<Rightarrow> int option) \<Rightarrow> pydict
   \<Rightarrow> py_error + pydict" where
  "reconcile_scores A F I fit =
     (case valid_dims A F (dict_get fit ''dimensions'' JNull) of
        Inl e \<Rightarrow> Inl e
      | Inr dims \<Rightarrow>
          if dims \<noteq> [] then
            (let avg = py_round (rnd A (real_of_int (sum_list (map score dims))
                                        / real (length dims)))
             in Inr (AList.update ''verdict'' (JStr (compute_verdict avg))
                      (AList.update ''overall_score'' (JInt avg)
                        (AList.update ''dimensions'' (JArr (map dim_json dims)) fit))))
          else
            (case py_int I (py_or (dict_get fit ''overall_score'' (JInt 0)) (JInt 0)) of
               Inl e \<Rightarrow> Inl e
             | Inr v \<Rightarrow>
                 (let ov = max 0 (min 100 v)
                  in Inr (AList.update ''verdict'' (JStr (compute_verdict ov))
                           (AList.update ''overall_score'' (JInt ov) fit)))))"

subsection \<open>Valid entries\<close>





subsection \<open>Example verdicts\<close>



definition unscored_fit :: pydict where
  "unscored_fit = [(''dimensions'', JArr []), (''overall_score'', JStr ''N/A'')]"

section \<open>Reading the model's answer\<close>

text \<open>\<^verbatim>\<open>raw.find(c)\<close> and \<^verbatim>\<open>raw.rfind(c)\<close> for a single character: an index, or -1.\<close>

fun py_find :: "char \<Rightarrow> string \<Rightarrow> int" where
  "py_find c [] = - 1"
| "py_find c (x # xs) =
     (if x = c then 0 else (let i = py_find c xs in if i = - 1 then - 1 else i + 1))"

definition py_rfind :: "char \<Rightarrow> string \<Rightarrow> int" where
  "py_rfind c xs =
     (let i = py_find c (rev xs) in if i = - 1 then - 1 else int (length xs) - 1 - i)"

text \<open>\<^verbatim>\<open>raw[s:e]\<close> for indices that are not negative.\<close>

definition py_slice :: "string \<Rightarrow> int \<Rightarrow> int \<Rightarrow> string" where
  "py_slice raw s e = take (nat e - nat s) (drop (nat s) raw)"

text \<open>
  \<^verbatim>\<open>json.loads\<close> is the parameter \<open>L\<close>: \<open>None\<close> where it raises, which the \<^verbatim>\<open>except\<close>
  turns into \<^verbatim>\<open>data = None\<close>.
\<close>

definition parse_json_or_fail :: "(string \<Rightarrow> json option) \<Rightarrow> string \<Rightarrow> json outcome" where
  "parse_json_or_fail L raw =
     (let s = py_find (CHR ''{'') raw; e = py_rfind (CHR ''}'') raw;
          data = (if s \<noteq> - 1 \<and> e \<noteq> - 1 \<and> e > s then L (py_slice raw s (e + 1)) else None)
      in case data of
           None \<Rightarrow> Halted raw
         | Some d \<Rightarrow> if truthy d then Returned d else Halted raw)"

text \<open>
  The span the specification speaks of, written from its words: what lies between the
  first opening brace and the last closing brace, both included.
\<close>

definition outer_span :: "string \<Rightarrow> string option" where
  "outer_span raw =
     (let t = dropWhile (\<lambda>c. c \<noteq> CHR ''{'') raw;
          u = rev (dropWhile (\<lambda>c. c \<noteq> CHR ''}'') (rev t))
      in if u = [] then None else Some u)"

section \<open>The brand profile and its refine pass\<close>

definition need_refine :: "pydict \<Rightarrow> py_error + bool" where
  "need_refine br_json =
     (case dict_get br_json ''granularity'' (JStr []) of
        JStr g \<Rightarrow>
          if py_lower g \<noteq> ''macro'' then Inr True
          else (case py_or (dict_get br_json ''category'' JNull) (JStr []) of
                  JStr c \<Rightarrow> Inr (py_strip c = [])
                | _ \<Rightarrow> Inl AttributeError)
      | _ \<Rightarrow> Inl AttributeError)"

text \<open>
  The research stage of the script. \<open>call\<close> is the language-model call, \<open>br_prompt\<close> the
  first prompt and \<open>refine_prompt\<close> the second, built from the first result. The stage
  returns how it ends and the prompts it sent, in order.
\<close>

definition brand_research ::
  "(string \<Rightarrow> string) \<Rightarrow> (string \<Rightarrow> json option) \<Rightarrow> string \<Rightarrow> (pydict \<Rightarrow> string)
   \<Rightarrow> json outcome \<times> string list" where
  "brand_research call L br_prompt refine_prompt =
     (case parse_json_or_fail L (call br_prompt) of
        Returned (JObj br_json) \<Rightarrow>
          (case need_refine br_json of
             Inl e \<Rightarrow> (Raised e, [br_prompt])
           | Inr True \<Rightarrow>
               (parse_json_or_fail L (call (refine_prompt br_json)),
                [br_prompt, refine_prompt br_json])
           | Inr False \<Rightarrow> (Returned (JObj br_json), [br_prompt]))
      | Returned other \<Rightarrow> (Raised AttributeError, [br_prompt])
      | Halted raw \<Rightarrow> (Halted raw, [br_prompt])
      | Raised e \<Rightarrow> (Raised e, [br_prompt]))"

section \<open>The evidence pack\<close>

text \<open>
  What BeautifulSoup hands to \<^verbatim>\<open>build_read_pack\<close> once the script, style, noscript, meta,
  iframe and svg elements are gone: the title's text when there is a title, and for each
  heading, emphasis and list element its text joined with spaces (first component) and
  its bare text (second component), and the text of the whole page.
\<close>

record soup =
  title_text :: "string option"
  heading_texts :: "(string \<times> string) list"
  emphasis_texts :: "(string \<times> string) list"
  li_texts :: "(string \<times> string) list"
  page_text :: string

text \<open>\<^verbatim>\<open>sep.join(xs)\<close>, \<^verbatim>\<open>s[:m]\<close> and \<^verbatim>\<open>list(dict.fromkeys(xs))\<close>.\<close>

fun py_join :: "string \<Rightarrow> string list \<Rightarrow> string" where
  "py_join sep [] = []"
| "py_join sep [x] = x"
| "py_join sep (x # y # ys) = x @ sep @ py_join sep (y # ys)"

definition py_prefix :: "'a list \<Rightarrow> int \<Rightarrow> 'a list" where
  "py_prefix xs m = (if 0 \<le> m then take (nat m) xs else take (nat (int (length xs) + m)) xs)"

definition fromkeys :: "'a list \<Rightarrow> 'a list" where
  "fromkeys xs = fold (\<lambda>x keys. if x \<in> set keys then keys else keys @ [x]) xs []"

definition build_blocks :: "soup \<Rightarrow> int \<Rightarrow> string list" where
  "build_blocks sp max_body =
     (let title = py_strip (case title_text sp of Some t \<Rightarrow> t | None \<Rightarrow> []);
          heads = map fst (filter (\<lambda>p. snd p \<noteq> []) (heading_texts sp));
          emph = map fst (filter (\<lambda>p. snd p \<noteq> []) (emphasis_texts sp));
          lis = map fst (filter (\<lambda>p. snd p \<noteq> []) (li_texts sp));
          body = py_prefix (page_text sp) max_body
      in (if title \<noteq> [] then [''[TITLE]'' @ [CHR 0x0A] @ title] else [])
       @ (if heads \<noteq> [] then
            [''[HEADLINES]'' @ [CHR 0x0A] @ ''- '' @ py_join ([CHR 0x0A] @ ''- '') (fromkeys heads)]
          else [])
       @ (if emph \<noteq> [] then
            [''[EMPHASIS]'' @ [CHR 0x0A] @ ''- '' @ py_join ([CHR 0x0A] @ ''- '') (fromkeys emph)]
          else [])
       @ (if lis \<noteq> [] then
            [''[LIST]'' @ [CHR 0x0A] @ ''- '' @ py_join ([CHR 0x0A] @ ''- '') (py_prefix lis 300)]
          else [])
       @ [''[BODY]'' @ [CHR 0x0A] @ body])"

definition build_read_pack :: "(string \<Rightarrow> soup) \<Rightarrow> string \<Rightarrow> int \<Rightarrow> string" where
  "build_read_pack P html max_body =
     py_join [CHR 0x0A, CHR 0x0A] (build_blocks (P html) max_body)"

section \<open>Hotspot geometry\<close>

text \<open>
  Every sum, difference, product and quotient of doubles in the code is the rounded exact
  result, and the literals 0.1, 0.55 and 0.12 are the doubles nearest to them; 0, 0.5 and 1
  are doubles themselves. \<^verbatim>\<open>max\<close> and \<^verbatim>\<open>min\<close> and the comparisons do not round.
\<close>

type_synonym bbox = "real \<times> real \<times> real \<times> real"

definition bbox ::
  "float_ops \<Rightarrow> (string \<Rightarrow> real option) \<Rightarrow> pydict \<Rightarrow> py_error + bbox" where
  "bbox A F h =
     (case py_or (dict_get h ''shape'' JNull) (JStr ''circle'') of
        JStr s \<Rightarrow>
          if py_lower s = ''rect'' then
            and_then (py_float A F (dict_get h ''x'' (JInt 0))) (\<lambda>x.
            and_then (py_float A F (dict_get h ''y'' (JInt 0))) (\<lambda>y.
            and_then (py_float A F (dict_get h ''w'' (JInt 0))) (\<lambda>w.
            and_then (py_float A F (dict_get h ''h'' (JInt 0))) (\<lambda>hgt.
              Inr (x, y, rnd A (x + w), rnd A (y + hgt))))))
          else
            and_then (py_float A F (dict_get h ''cx'' (JFloat 0.5))) (\<lambda>cx.
            and_then (py_float A F (dict_get h ''cy'' (JFloat 0.5))) (\<lambda>cy.
            and_then (py_float A F (dict_get h ''r'' (JFloat (rnd A 0.1)))) (\<lambda>r.
              Inr (rnd A (cx - r), rnd A (cy - r), rnd A (cx + r), rnd A (cy + r)))))
      | _ \<Rightarrow> Inl AttributeError)"

definition area :: "float_ops \<Rightarrow> bbox \<Rightarrow> real" where
  "area A b =
     (case b of (x1, y1, x2, y2) \<Rightarrow>
        rnd A (max 0 (rnd A (x2 - x1)) * max 0 (rnd A (y2 - y1))))"

definition iou :: "float_ops \<Rightarrow> bbox \<Rightarrow> bbox \<Rightarrow> real" where
  "iou A b1 b2 =
     (case b1 of (a1, a2, a3, a4) \<Rightarrow> case b2 of (c1, c2, c3, c4) \<Rightarrow>
        (let ix1 = max a1 c1; iy1 = max a2 c2; ix2 = min a3 c3; iy2 = min a4 c4;
             iw = max 0 (rnd A (ix2 - ix1)); ih = max 0 (rnd A (iy2 - iy1));
             inter = rnd A (iw * ih);
             union = rnd A (rnd A (area A b1 + area A b2) - inter)
         in if union > 0 then rnd A (inter / union) else 0))"

definition centerdist :: "float_ops \<Rightarrow> bbox \<Rightarrow> bbox \<Rightarrow> real" where
  "centerdist A b1 b2 =
     (case b1 of (a1, a2, a3, a4) \<Rightarrow> case b2 of (c1, c2, c3, c4) \<Rightarrow>
        (let c1x = rnd A (rnd A (a1 + a3) / 2); c1y = rnd A (rnd A (a2 + a4) / 2);
             c2x = rnd A (rnd A (c1 + c3) / 2); c2y = rnd A (rnd A (c2 + c4) / 2)
         in hypot A (rnd A (c1x - c2x)) (rnd A (c1y - c2y))))"

text \<open>
  \<^verbatim>\<open>{*xs}\<close> read back as a list. The members must be hashable; the order in which a set
  hands out its members is the interpreter's business, the parameter \<open>S\<close>, which maps
  the members in insertion order to the members in iteration order.
\<close>

fun hashable :: "json \<Rightarrow> bool" where
  "hashable (JArr xs) = False"
| "hashable (JObj kv) = False"
| "hashable v = True"

definition py_set :: "(json list \<Rightarrow> json list) \<Rightarrow> json list \<Rightarrow> py_error + json list" where
  "py_set S xs = (if list_all hashable xs then Inr (S xs) else Inl TypeError)"

definition merge :: "(json list \<Rightarrow> json list) \<Rightarrow> pydict \<Rightarrow> pydict \<Rightarrow> py_error + pydict" where
  "merge S a b =
     (let out = (if \<not> truthy (dict_get a ''label'' JNull) \<and> truthy (dict_get b ''label'' JNull)
                 then AList.update ''label'' (dict_get b ''label'' JNull) a else a)
      in and_then (py_iter (py_or (dict_get out ''risks'' JNull) (JArr []))) (\<lambda>ra.
         and_then (py_iter (py_or (dict_get b ''risks'' JNull) (JArr []))) (\<lambda>rb.
         and_then (py_set S (ra @ rb)) (\<lambda>risks.
         (let out = AList.update ''risks'' (JArr risks) out
          in and_then (py_iter (py_or (dict_get out ''suggested_edits'' JNull) (JArr []))) (\<lambda>ea.
             and_then (py_set S ea) (\<lambda>edits.
             and_then (py_iter (py_or (dict_get b ''suggested_edits'' JNull) (JArr []))) (\<lambda>eb.
               Inr (AList.update ''suggested_edits'' (JArr (edits @ eb)) out)))))))))"

text \<open>The \<^verbatim>\<open>isinstance(h, dict)\<close> filter.\<close>

fun as_dict :: "json \<Rightarrow> pydict option" where
  "as_dict (JObj d) = Some d"
| "as_dict v = None"

definition dicts_of :: "json list \<Rightarrow> pydict list" where
  "dicts_of items = List.map_filter as_dict items"

text \<open>
  \<^verbatim>\<open>sorted(hs, key=..., reverse=True)\<close>: the keys are computed first, in list order, and
  the sort is stable, also when reversed.
\<close>

fun keyed :: "float_ops \<Rightarrow> (string \<Rightarrow> real option) \<Rightarrow> pydict list \<Rightarrow> py_error + (real \<times> pydict) list" where
  "keyed A F [] = Inr []"
| "keyed A F (h # hs) =
     and_then (bbox A F h) (\<lambda>b. and_then (keyed A F hs) (\<lambda>ks. Inr ((area A b, h) # ks)))"

definition sorted_by_area ::
  "float_ops \<Rightarrow> (string \<Rightarrow> real option) \<Rightarrow> pydict list \<Rightarrow> py_error + pydict list" where
  "sorted_by_area A F hs =
     and_then (keyed A F hs) (\<lambda>ks. Inr (map snd (sort_key (\<lambda>p. - fst p) ks)))"

definition geometry_keys :: "string list" where
  "geometry_keys = [''x'', ''y'', ''w'', ''h'', ''cx'', ''cy'', ''r'']"

definition clamp_key :: "float_ops \<Rightarrow> (string \<Rightarrow> real option) \<Rightarrow> string \<Rightarrow> pydict \<Rightarrow> pydict" where
  "clamp_key A F key hh =
     (case map_of hh key of
        None \<Rightarrow> hh
      | Some v \<Rightarrow>
          (case py_float A F v of
             Inl e \<Rightarrow> hh
           | Inr r \<Rightarrow> AList.update key (JFloat (max 0 (min 1 r))) hh))"

definition clamp_fields :: "float_ops \<Rightarrow> (string \<Rightarrow> real option) \<Rightarrow> pydict \<Rightarrow> pydict" where
  "clamp_fields A F h = fold (clamp_key A F) geometry_keys h"

text \<open>
  The inner loop over \<^verbatim>\<open>kept\<close>: \<open>Some\<close> the list with the first region that matches
  replaced by the merge, \<open>None\<close> when no region matches.
\<close>

fun merge_into ::
  "float_ops \<Rightarrow> (string \<Rightarrow> real option) \<Rightarrow> (json list \<Rightarrow> json list) \<Rightarrow> bbox \<Rightarrow> pydict \<Rightarrow> pydict list
   \<Rightarrow> py_error + pydict list option" where
  "merge_into A F S b h [] = Inr None"
| "merge_into A F S b h (k # ks) =
     and_then (bbox A F k) (\<lambda>bk.
       if iou A b bk > rnd A 0.55 \<or> centerdist A b bk < rnd A 0.12
       then and_then (merge S k h) (\<lambda>m. Inr (Some (m # ks)))
       else and_then (merge_into A F S b h ks) (\<lambda>r. Inr (map_option ((#) k) r)))"

definition dedupe_step ::
  "float_ops \<Rightarrow> (string \<Rightarrow> real option) \<Rightarrow> (json list \<Rightarrow> json list) \<Rightarrow> pydict list \<Rightarrow> pydict
   \<Rightarrow> py_error + pydict list" where
  "dedupe_step A F S kept h =
     and_then (bbox A F h) (\<lambda>b.
     and_then (merge_into A F S b h kept) (\<lambda>r.
       case r of
         Some kept' \<Rightarrow> Inr kept'
       | None \<Rightarrow> Inr (kept @ [clamp_fields A F h])))"

fun dedupe_loop ::
  "float_ops \<Rightarrow> (string \<Rightarrow> real option) \<Rightarrow> (json list \<Rightarrow> json list) \<Rightarrow> pydict list \<Rightarrow> pydict list
   \<Rightarrow> py_error + pydict list" where
  "dedupe_loop A F S kept [] = Inr kept"
| "dedupe_loop A F S kept (h # hs) =
     and_then (dedupe_step A F S kept h) (\<lambda>kept'. dedupe_loop A F S kept' hs)"

definition dedupe_hotspots ::
  "float_ops \<Rightarrow> (string \<Rightarrow> real option) \<Rightarrow> (json list \<Rightarrow> json list) \<Rightarrow> json \<Rightarrow> py_error + pydict list" where
  "dedupe_hotspots A F S hotspots =
     and_then (py_iter (py_or hotspots (JArr []))) (\<lambda>items.
     and_then (sorted_by_area A F (dicts_of items)) (\<lambda>hs_sorted.
     and_then (dedupe_loop A F S [] hs_sorted) (\<lambda>kept.
       Inr (take 12 kept))))"

subsection \<open>Example answers\<close>

text \<open>
  A span of the raw text is recoverable when the text has an outer span and the decoder
  accepts it.
\<close>

definition recoverable :: "(string \<Rightarrow> json option) \<Rightarrow> string \<Rightarrow> bool" where
  "recoverable L raw = (case outer_span raw of None \<Rightarrow> False | Some sp \<Rightarrow> L sp \<noteq> None)"

text \<open>
  What \<^verbatim>\<open>json.loads\<close> does on the text of two braces: the empty object. On any other
  text this stand-in fails; nothing below relies on that.
\<close>

definition loads_empty_object :: "string \<Rightarrow> json option" where
  "loads_empty_object s = (if s = ''{}'' then Some (JObj []) else None)"

text \<open>
  A first profile at micro granularity and the profile of the refine pass, with
  stand-ins for the model and the decoder that produce them.
\<close>

definition example_profile :: pydict where
  "example_profile = [(''granularity'', JStr ''micro''), (''category'', JStr ''Electronics'')]"

definition example_refined :: pydict where
  "example_refined = [(''granularity'', JStr ''macro''), (''category'', JStr ''Electronics'')]"

definition capitalised_profile :: pydict where
  "capitalised_profile = [(''granularity'', JStr ''Macro''), (''category'', JStr ''Electronics'')]"

definition example_call :: "string \<Rightarrow> string" where
  "example_call prompt = (if prompt = ''research'' then ''first {1}'' else ''second {2}'')"

definition example_loads :: "string \<Rightarrow> json option" where
  "example_loads s =
     (if s = ''{1}'' then Some (JObj example_profile)
      else if s = ''{2}'' then Some (JObj example_refined) else None)"

subsection \<open>Example pages\<close>

text \<open>
  What BeautifulSoup gives for the empty document, and for a small page with a repeated
  heading and a repeated list item.
\<close>

definition blank_page :: soup where
  "blank_page =
     \<lparr>title_text = None, heading_texts = [], emphasis_texts = [], li_texts = [],
      page_text = []\<rparr>"

definition small_page :: soup where
  "small_page =
     \<lparr>title_text = Some ''Shop'',
      heading_texts = [(''New'', ''New''), (''Sale'', ''Sale''), (''New'', ''New'')],
      emphasis_texts = [],
      li_texts = [(''Tea'', ''Tea''), (''Tea'', ''Tea'')],
      page_text = ''Shop New Sale New Tea Tea''\<rparr>"

subsection \<open>Example hotspots\<close>

text \<open>
  A circle that carries the unused rectangle field \<open>x\<close> as null, the way a model fills
  a fixed schema; a circle off the image that also carries a width beyond the range of
  doubles, and what the clamp makes of it; a candidate whose shape is a number; and two
  circles on nearly the same spot with the same risk and the same suggested edit.
\<close>

definition null_x_circle :: pydict where
  "null_x_circle =
     [(''shape'', JStr ''circle''), (''cx'', JFloat 0.5), (''cy'', JFloat 0.5), (''r'', JFloat 0.1),
      (''x'', JNull)]"

definition stray_circle :: pydict where
  "stray_circle =
     [(''shape'', JStr ''circle''), (''cx'', JFloat 1.5), (''cy'', JFloat (- 0.25)),
      (''r'', JFloat 0.125), (''x'', JNull), (''w'', JInt (10 ^ 400))]"

definition stray_circle_clamped :: pydict where
  "stray_circle_clamped =
     [(''shape'', JStr ''circle''), (''cx'', JFloat 1), (''cy'', JFloat 0),
      (''r'', JFloat 0.125), (''x'', JNull), (''w'', JInt (10 ^ 400))]"

definition numbered_shape :: pydict where
  "numbered_shape = [(''shape'', JInt 5)]"

definition twin_a :: pydict where
  "twin_a =
     [(''shape'', JStr ''circle''), (''cx'', JFloat 0.5), (''cy'', JFloat 0.5), (''r'', JFloat 0.1),
      (''label'', JStr ''logo''), (''risks'', JArr [JStr ''off-brand colour'']),
      (''suggested_edits'', JArr [JStr ''recolour''])]"

definition twin_b :: pydict where
  "twin_b =
     [(''shape'', JStr ''circle''), (''cx'', JFloat 0.52), (''cy'', JFloat 0.5), (''r'', JFloat 0.09),
      (''label'', JStr ''logo''), (''risks'', JArr [JStr ''off-brand colour'']),
      (''suggested_edits'', JArr [JStr ''recolour''])]"
subsection \<open>Notions used to state the properties of the hotspot engine\<close>

text \<open>
  The merge test of \<^verbatim>\<open>dedupe_hotspots\<close> on two boxes; what the clamp makes of one value;
  a hotspot on which the clamp changes nothing; a candidate whose positional fields, where
  they read as numbers, lie in the unit interval; two hotspots with the same shape and
  the same positional fields.
\<close>

definition close_boxes :: "float_ops \<Rightarrow> bbox \<Rightarrow> bbox \<Rightarrow> bool" where
  "close_boxes A b bk = (iou A b bk > rnd A 0.55 \<or> centerdist A b bk < rnd A 0.12)"

definition clamped_value :: "float_ops \<Rightarrow> (string \<Rightarrow> real option) \<Rightarrow> json \<Rightarrow> json" where
  "clamped_value A F v = (case py_float A F v of Inl e \<Rightarrow> v | Inr r \<Rightarrow> JFloat (max 0 (min 1 r)))"

definition settled :: "float_ops \<Rightarrow> (string \<Rightarrow> real option) \<Rightarrow> pydict \<Rightarrow> bool" where
  "settled A F h =
     list_all (\<lambda>key. case map_of h key of None \<Rightarrow> True | Some v \<Rightarrow> clamped_value A F v = v)
       geometry_keys"

definition in_unit_range :: "float_ops \<Rightarrow> (string \<Rightarrow> real option) \<Rightarrow> pydict \<Rightarrow> bool" where
  "in_unit_range A F h =
     list_all (\<lambda>key. case map_of h key of
                 None \<Rightarrow> True
               | Some v \<Rightarrow> (case py_float A F v of Inl e \<Rightarrow> True | Inr r \<Rightarrow> 0 \<le> r \<and> r \<le> 1))
       geometry_keys"

definition same_geometry :: "pydict \<Rightarrow> pydict \<Rightarrow> bool" where
  "same_geometry h k = list_all (\<lambda>key. map_of k key = map_of h key) (''shape'' # geometry_keys)"

definition area_key :: "float_ops \<Rightarrow> (string \<Rightarrow> real option) \<Rightarrow> pydict \<Rightarrow> real" where
  "area_key A F h = (case bbox A F h of Inl e \<Rightarrow> 0 | Inr b \<Rightarrow> area A b)"

text \<open>
  The merge test on the results of two box computations, false when either raised; and
  the relation between a candidate and the region kept for it: the region has the shape
  and the positional fields of the clamped candidate.
\<close>

definition box_close :: "float_ops \<Rightarrow> py_error + bbox \<Rightarrow> py_error + bbox \<Rightarrow> bool" where
  "box_close A x y =
     (case x of
        Inl e \<Rightarrow> False
      | Inr b \<Rightarrow> (case y of Inl e \<Rightarrow> False | Inr bk \<Rightarrow> close_boxes A b bk))"

definition kept_for :: "float_ops \<Rightarrow> (string \<Rightarrow> real option) \<Rightarrow> pydict \<Rightarrow> pydict \<Rightarrow> bool" where
  "kept_for A F c k = same_geometry (clamp_fields A F c) k"

subsection \<open>Example candidate lists\<close>




definition edge_circle :: pydict where
  "edge_circle =
     [(''shape'', JStr ''circle''), (''cx'', JFloat 0.5), (''cy'', JFloat 0.9375), (''r'', JFloat 0.125)]"

definition far_circle :: pydict where
  "far_circle =
     [(''shape'', JStr ''circle''), (''cx'', JFloat 0.5), (''cy'', JInt 3), (''r'', JFloat 0.0625)]"

definition far_circle_clamped :: pydict where
  "far_circle_clamped =
     [(''shape'', JStr ''circle''), (''cx'', JFloat 0.5), (''cy'', JFloat 1), (''r'', JFloat 0.0625)]"

definition row_left :: pydict where
  "row_left =
     [(''shape'', JStr ''circle''), (''cx'', JFloat 0.25), (''cy'', JFloat 0.5), (''r'', JFloat 0.0625)]"

definition row_mid :: pydict where
  "row_mid =
     [(''shape'', JStr ''circle''), (''cx'', JFloat 0.3125), (''cy'', JFloat 0.5), (''r'', JFloat 0.0625)]"

definition row_right :: pydict where
  "row_right =
     [(''shape'', JStr ''circle''), (''cx'', JFloat 0.375), (''cy'', JFloat 0.5), (''r'', JFloat 0.0625)]"

definition row_left_merged :: pydict where
  "row_left_merged = row_left @ [(''risks'', JArr []), (''suggested_edits'', JArr [])]"


definition edge_circle_merged :: pydict where
  "edge_circle_merged = edge_circle @ [(''risks'', JArr []), (''suggested_edits'', JArr [])]"


section \<open>The arithmetic that never rounds\<close>

lemma rnd_exact: "rnd exact_ops x = x"
  by (simp add: exact_ops_def)

lemma hypot_exact: "hypot exact_ops x y = sqrt (x\<^sup>2 + y\<^sup>2)"
  by (simp add: exact_ops_def)

section \<open>Properties of score reconciliation\<close>








text \<open>
  Claim C2. With no valid dimension, \<open>reconcile_scores\<close> reads the reported total with
  \<^verbatim>\<open>int\<close> outside any \<^verbatim>\<open>try\<close>: a total that is a word the interpreter does not read as
  an integer raises ValueError, and no verdict is returned.
\<close>

theorem reconcile_scores_raises_on_worded_total:
  "I ''N/A'' = None \<Longrightarrow> reconcile_scores A F I unscored_fit = Inl ValueError"
  by (simp add: reconcile_scores_def unscored_fit_def valid_dims_def dict_get_def py_or_def
      List.map_filter_def)

theorem reconcile_scores_raises_on_worded_total_witness:
  "(\<lambda>s. None :: int option) ''N/A'' = None
   \<and> reconcile_scores exact_ops (\<lambda>s. None) (\<lambda>s. None) unscored_fit = Inl ValueError"
  using reconcile_scores_raises_on_worded_total [of "\<lambda>s. None" exact_ops "\<lambda>s. None"] by simp

section \<open>Properties of the parser\<close>

lemma py_find_eq:
  "py_find c xs = (if c \<in> set xs then int (length (takeWhile (\<lambda>x. x \<noteq> c) xs)) else - 1)"
  by (induction xs) (auto simp: Let_def)

lemma py_rfind_eq:
  "py_rfind c xs =
     (if c \<in> set xs then int (length xs) - 1 - int (length (takeWhile (\<lambda>x. x \<noteq> c) (rev xs)))
      else - 1)"
  by (simp add: py_rfind_def py_find_eq Let_def)

lemma dropWhile_as_drop: "dropWhile P xs = drop (length (takeWhile P xs)) xs"
  by (induction xs) auto

lemma rev_dropWhile_rev_as_take:
  "rev (dropWhile P (rev xs)) = take (length xs - length (takeWhile P (rev xs))) xs"
proof -
  have "rev (dropWhile P (rev xs)) = rev (drop (length (takeWhile P (rev xs))) (rev xs))"
    by (simp add: dropWhile_as_drop[symmetric])
  also have "\<dots> = take (length xs - length (takeWhile P (rev xs))) xs"
    by (simp add: rev_drop)
  finally show ?thesis .
qed

lemma tw_len_less: "c \<in> set xs \<Longrightarrow> length (takeWhile (\<lambda>x. x \<noteq> c) xs) < length xs"
  by (induction xs) auto

lemma tw_nth: "c \<in> set xs \<Longrightarrow> xs ! length (takeWhile (\<lambda>x. x \<noteq> c) xs) = c"
  by (induction xs) auto

lemma span_none_if_no_open:
  "CHR ''{'' \<notin> set raw \<Longrightarrow> outer_span raw = None"
proof -
  assume "CHR ''{'' \<notin> set raw"
  then have "dropWhile (\<lambda>c. c \<noteq> CHR ''{'') raw = []" by auto
  then show ?thesis by (simp add: outer_span_def Let_def del: dropWhile_eq_Nil_conv)
qed

text \<open>The indices of \<^verbatim>\<open>find\<close> and \<^verbatim>\<open>rfind\<close> cut out the outer span.\<close>

lemma outer_span_eq:
  "outer_span raw =
     (let s = py_find (CHR ''{'') raw; e = py_rfind (CHR ''}'') raw
      in if s \<noteq> - 1 \<and> e \<noteq> - 1 \<and> e > s then Some (py_slice raw s (e + 1)) else None)"
proof (cases "CHR ''{'' \<in> set raw")
  case False
  then show ?thesis by (simp add: span_none_if_no_open py_find_eq Let_def)
next
  case True
  define n where "n = length (takeWhile (\<lambda>x. x \<noteq> CHR ''{'') raw)"
  define t where "t = drop n raw"
  have nlt: "n < length raw" unfolding n_def using True
    by (simp add: tw_len_less)
  have t: "dropWhile (\<lambda>c. c \<noteq> CHR ''{'') raw = t"
    by (simp add: t_def n_def dropWhile_as_drop[symmetric])
  have raw: "raw = take n raw @ t" by (simp add: t_def)
  have hd: "raw ! n = CHR ''{''" unfolding n_def using True
    by (simp add: tw_nth)
  have s: "py_find (CHR ''{'') raw = int n" using True by (simp add: py_find_eq n_def)
  show ?thesis
  proof (cases "CHR ''}'' \<in> set t")
    case False
    have u: "rev (dropWhile (\<lambda>c. c \<noteq> CHR ''}'') (rev t)) = []"
      using False by auto
    have "\<not> (py_rfind (CHR ''}'') raw \<noteq> - 1 \<and> py_rfind (CHR ''}'') raw > int n)"
    proof (cases "CHR ''}'' \<in> set raw")
      case False then show ?thesis by (simp add: py_rfind_eq)
    next
      case inraw: True
      define m where "m = length (takeWhile (\<lambda>x. x \<noteq> CHR ''}'') (rev raw))"
      have mlt: "m < length raw"
        unfolding m_def using inraw tw_len_less[of "CHR ''}''" "rev raw"] by simp
      have "rev raw ! m = CHR ''}''"
        unfolding m_def using inraw tw_nth[of "CHR ''}''" "rev raw"] by simp
      then have at: "raw ! (length raw - 1 - m) = CHR ''}''"
        using mlt by (simp add: rev_nth)
      have "\<not> (length raw - 1 - m \<ge> n)"
      proof
        assume ge: "length raw - 1 - m \<ge> n"
        have "t ! (length raw - 1 - m - n) = raw ! (length raw - 1 - m)"
          unfolding t_def using ge mlt by simp
        moreover have "length raw - 1 - m - n < length t"
          unfolding t_def using ge mlt nlt by simp
        ultimately have "CHR ''}'' \<in> set t" using at by (metis nth_mem)
        with False show False by simp
      qed
      then show ?thesis using inraw mlt by (simp add: py_rfind_eq m_def[symmetric])
    qed
    then show ?thesis using u s by (simp add: outer_span_def Let_def t)
  next
    case tin: True
    then have inraw: "CHR ''}'' \<in> set raw" unfolding t_def by (meson in_set_dropD)
    define m where "m = length (takeWhile (\<lambda>x. x \<noteq> CHR ''}'') (rev t))"
    have mlt: "m < length t"
      unfolding m_def using tin tw_len_less[of "CHR ''}''" "rev t"] by simp
    have tw: "takeWhile (\<lambda>x. x \<noteq> CHR ''}'') (rev raw) = takeWhile (\<lambda>x. x \<noteq> CHR ''}'') (rev t)"
    proof -
      have "rev raw = rev t @ rev (take n raw)" using raw by (metis rev_append)
      moreover have "\<exists>x \<in> set (rev t). \<not> x \<noteq> CHR ''}''" using tin by simp
      ultimately show ?thesis by (simp add: takeWhile_append1)
    qed
    have e: "py_rfind (CHR ''}'') raw = int (length raw) - 1 - int m"
      using inraw by (simp add: py_rfind_eq tw m_def)
    have lt: "length t = length raw - n" by (simp add: t_def)
    have u: "rev (dropWhile (\<lambda>c. c \<noteq> CHR ''}'') (rev t)) = take (length t - m) t"
      by (simp add: rev_dropWhile_rev_as_take m_def)
    have ne: "take (length t - m) t \<noteq> []" using mlt by (cases t) auto
    have tne: "t ! 0 = CHR ''{''" using hd nlt by (simp add: t_def)
    have "m \<noteq> length t - 1"
    proof
      assume meq: "m = length t - 1"
      have "rev t ! m = CHR ''}''"
        unfolding m_def using tin tw_nth[of "CHR ''}''" "rev t"] by simp
      then have "t ! (length t - 1 - m) = CHR ''}''" using mlt by (simp add: rev_nth)
      with meq tne show False by simp
    qed
    then have gt: "int (length raw) - 1 - int m > int n" using mlt lt by linarith
    have na: "nat (int (length raw) - 1 - int m + 1) = length raw - m"
      using mlt lt by linarith
    have "nat (int (length raw) - 1 - int m + 1) - nat (int n) = length t - m"
      using lt na by simp
    then have sl: "py_slice raw (int n) (int (length raw) - 1 - int m + 1) = take (length t - m) t"
      unfolding py_slice_def t_def by simp
    show ?thesis using u ne s e gt sl tin by (simp add: outer_span_def Let_def t)
  qed
qed

text \<open>
  Claim C7, as the specification states it, fails on the text of two braces: its outer
  span is recoverable, the decoder returns the empty object, and the parser halts all
  the same, because it tests the decoded value for truth.
\<close>

theorem parse_json_or_fail_halts_on_empty_object:
  "recoverable loads_empty_object ''{}''
   \<and> parse_json_or_fail loads_empty_object ''{}'' = Halted ''{}''"
  by (simp add: recoverable_def outer_span_def loads_empty_object_def parse_json_or_fail_def
      py_rfind_def py_slice_def)

text \<open>
  Claim C7, amended. \<open>parse_json_or_fail\<close> decodes the outer span of the raw text, from
  the first opening brace to the last closing brace, and nothing else. It returns the
  decoded value when there is such a span, the decoder accepts it and the value is not
  empty; in every other case it halts with the raw text.
\<close>

theorem parse_json_or_fail_outer_span:
  "parse_json_or_fail L raw =
     (case outer_span raw of
        None \<Rightarrow> Halted raw
      | Some sp \<Rightarrow>
          (case L sp of
             None \<Rightarrow> Halted raw
           | Some d \<Rightarrow> if truthy d then Returned d else Halted raw))"
  by (simp add: parse_json_or_fail_def outer_span_eq Let_def split: option.splits)

section \<open>Properties of the refine pass\<close>

lemma py_strip_empty_iff: "py_strip s = [] \<longleftrightarrow> (\<forall>c \<in> set s. py_isspace c)"
proof
  assume "py_strip s = []"
  then have "dropWhile py_isspace (rev (dropWhile py_isspace s)) = []"
    by (simp add: py_strip_def)
  then have a: "\<forall>c \<in> set (dropWhile py_isspace s). py_isspace c"
    by (simp add: dropWhile_eq_Nil_conv)
  show "\<forall>c \<in> set s. py_isspace c"
  proof (cases "dropWhile py_isspace s")
    case Nil
    then show ?thesis by (simp add: dropWhile_eq_Nil_conv)
  next
    case (Cons x xs)
    then have "\<not> py_isspace x" by (metis hd_dropWhile list.sel(1) list.distinct(1))
    moreover have "py_isspace x" using a Cons by simp
    ultimately show ?thesis by simp
  qed
next
  assume "\<forall>c \<in> set s. py_isspace c"
  then have "dropWhile py_isspace s = []" by auto
  then show "py_strip s = []" by (simp add: py_strip_def del: dropWhile_eq_Nil_conv)
qed

lemma need_refine_decides:
  assumes "need_refine d = Inr b"
  shows "b = ((\<exists>g. dict_get d ''granularity'' (JStr []) = JStr g \<and> py_lower g \<noteq> ''macro'')
            \<or> \<not> truthy (dict_get d ''category'' JNull)
            \<or> (\<exists>c. dict_get d ''category'' JNull = JStr c \<and> (\<forall>ch \<in> set c. py_isspace ch)))"
proof (cases "dict_get d ''granularity'' (JStr [])")
  case (JStr g)
  show ?thesis
  proof (cases "py_lower g \<noteq> ''macro''")
    case True
    then show ?thesis using assms JStr by (simp add: need_refine_def)
  next
    case False
    show ?thesis
    proof (cases "truthy (dict_get d ''category'' JNull)")
      case nt: False
      then show ?thesis using assms JStr False
        by (simp add: need_refine_def py_or_def py_strip_def)
    next
      case tr: True
      then obtain c where c: "dict_get d ''category'' JNull = JStr c"
        using assms JStr False
        by (cases "dict_get d ''category'' JNull") (simp_all add: need_refine_def py_or_def)
      then show ?thesis using assms JStr False tr
        by (simp add: need_refine_def py_or_def py_strip_empty_iff)
    qed
  qed
qed (use assms in \<open>simp_all add: need_refine_def\<close>)

text \<open>
  Claim C9, as stated, fails on a first profile whose granularity is written with a
  capital: the field differs from the word macro, the category is not empty, and no
  refine pass is asked for, because the field is compared in lower case.
\<close>

theorem need_refine_ignores_case:
  "dict_get capitalised_profile ''granularity'' (JStr []) \<noteq> JStr ''macro''
   \<and> truthy (dict_get capitalised_profile ''category'' JNull)
   \<and> need_refine capitalised_profile = Inr False"
  by (simp add: capitalised_profile_def need_refine_def dict_get_def py_lower_def lower_char_def
      py_or_def py_strip_def py_isspace_def)

text \<open>
  Claim C9, amended. When the first answer parses to a profile on which the check
  itself does not raise, the refine pass is made exactly when the granularity, in lower
  case, differs from macro, or the category is missing, empty or white space only. The
  stage sends one prompt without the refine pass and two with it, never more; with it,
  the stage ends as the parse of the second answer ends, and the first profile and the
  check play no further part.
\<close>

theorem refine_pass_once:
  assumes "parse_json_or_fail L (call br_prompt) = Returned (JObj d)"
      and "need_refine d = Inr b"
  shows "b = ((\<exists>g. dict_get d ''granularity'' (JStr []) = JStr g \<and> py_lower g \<noteq> ''macro'')
            \<or> \<not> truthy (dict_get d ''category'' JNull)
            \<or> (\<exists>c. dict_get d ''category'' JNull = JStr c \<and> (\<forall>ch \<in> set c. py_isspace ch)))
       \<and> brand_research call L br_prompt refine_prompt =
           (if b then (parse_json_or_fail L (call (refine_prompt d)), [br_prompt, refine_prompt d])
            else (Returned (JObj d), [br_prompt]))
       \<and> length (snd (brand_research call L br_prompt refine_prompt)) \<le> 2"
proof -
  have e: "brand_research call L br_prompt refine_prompt =
           (if b then (parse_json_or_fail L (call (refine_prompt d)), [br_prompt, refine_prompt d])
            else (Returned (JObj d), [br_prompt]))"
    using assms by (simp add: brand_research_def)
  then have "length (snd (brand_research call L br_prompt refine_prompt)) \<le> 2"
    by simp
  with e need_refine_decides[OF assms(2)] show ?thesis by blast
qed

theorem refine_pass_once_witness:
  "parse_json_or_fail example_loads (example_call ''research'') = Returned (JObj example_profile)
   \<and> need_refine example_profile = Inr True
   \<and> brand_research example_call example_loads ''research'' (\<lambda>d. ''refine'') =
       (Returned (JObj example_refined), [''research'', ''refine''])"
proof -
  have h1: "parse_json_or_fail example_loads (example_call ''research'')
            = Returned (JObj example_profile)"
    by (simp add: parse_json_or_fail_def example_call_def example_loads_def py_rfind_def
        py_slice_def example_profile_def)
  have h2: "need_refine example_profile = Inr True"
    by (simp add: need_refine_def example_profile_def dict_get_def py_lower_def lower_char_def)
  have p2: "parse_json_or_fail example_loads (example_call ''refine'')
            = Returned (JObj example_refined)"
    by (simp add: parse_json_or_fail_def example_call_def example_loads_def py_rfind_def
        py_slice_def example_refined_def)
  from refine_pass_once [where L = example_loads and call = example_call
      and br_prompt = "''research''" and d = example_profile and b = True
      and refine_prompt = "\<lambda>d. ''refine''", OF h1 h2] p2 h1 h2
  show ?thesis by simp
qed

section \<open>Properties of the evidence pack\<close>

lemma remdups_snoc: "remdups (ys @ [x]) = remdups (filter (\<lambda>y. y \<noteq> x) ys) @ [x]"
  by (induction ys) auto

lemma fold_fromkeys:
  "fold (\<lambda>x keys. if x \<in> set keys then keys else keys @ [x]) xs acc =
   acc @ rev (remdups (rev (filter (\<lambda>x. x \<notin> set acc) xs)))"
proof (induction xs arbitrary: acc)
  case Nil
  then show ?case by simp
next
  case (Cons x xs)
  show ?case
  proof (cases "x \<in> set acc")
    case True
    then show ?thesis by (simp add: Cons.IH)
  next
    case False
    have f: "filter (\<lambda>y. y \<noteq> x) (rev (filter (\<lambda>x. x \<notin> set acc) xs)) =
             rev (filter (\<lambda>y. y \<notin> set (acc @ [x])) xs)"
      by (simp add: rev_filter[symmetric] conj_commute)
    show ?thesis using False
      by (simp add: Cons.IH remdups_snoc f del: set_append)
  qed
qed

text \<open>\<^verbatim>\<open>dict.fromkeys\<close> keeps each string where it occurs first.\<close>

lemma fromkeys_first_occurrences: "fromkeys xs = rev (remdups (rev xs))"
  by (simp add: fromkeys_def fold_fromkeys)

lemma py_prefix_nonneg: "0 \<le> m \<Longrightarrow> py_prefix xs m = take (nat m) xs"
  by (simp add: py_prefix_def)

text \<open>
  Claim C8, as stated, fails on the empty document: the text of the page is empty and
  the pack still holds the body section, a label with nothing under it.
\<close>

theorem build_read_pack_keeps_empty_body:
  "page_text blank_page = []
   \<and> build_read_pack (\<lambda>html. blank_page) [] 14000 = ''[BODY]'' @ [CHR 0x0A]"
  by (simp add: build_read_pack_def build_blocks_def blank_page_def py_strip_def py_prefix_def)

text \<open>
  Claim C8, amended. For a budget that is not negative, the pack is the title, headline,
  emphasis and list sections, each left out when it is empty, followed by the body
  section, which is always there. The body holds the first \<open>max_body\<close> characters of the
  page text and no more; headlines and emphasis strings keep their first occurrence
  only; the list section holds the first 300 items as they come, duplicates included.
\<close>

theorem build_read_pack_sections:
  assumes "0 \<le> max_body"
  shows "\<exists>title heads emph lis body.
      title = py_strip (case title_text (P html) of Some t \<Rightarrow> t | None \<Rightarrow> [])
    \<and> heads = map fst (filter (\<lambda>p. snd p \<noteq> []) (heading_texts (P html)))
    \<and> emph = map fst (filter (\<lambda>p. snd p \<noteq> []) (emphasis_texts (P html)))
    \<and> lis = map fst (filter (\<lambda>p. snd p \<noteq> []) (li_texts (P html)))
    \<and> body = take (nat max_body) (page_text (P html))
    \<and> int (length body) \<le> max_body
    \<and> build_read_pack P html max_body =
        py_join [CHR 0x0A, CHR 0x0A]
          ((if title = [] then [] else [''[TITLE]'' @ [CHR 0x0A] @ title])
         @ (if heads = [] then []
            else [''[HEADLINES]'' @ [CHR 0x0A] @ ''- ''
                  @ py_join ([CHR 0x0A] @ ''- '') (rev (remdups (rev heads)))])
         @ (if emph = [] then []
            else [''[EMPHASIS]'' @ [CHR 0x0A] @ ''- ''
                  @ py_join ([CHR 0x0A] @ ''- '') (rev (remdups (rev emph)))])
         @ (if lis = [] then []
            else [''[LIST]'' @ [CHR 0x0A] @ ''- ''
                  @ py_join ([CHR 0x0A] @ ''- '') (take 300 lis)])
         @ [''[BODY]'' @ [CHR 0x0A] @ body])"
proof -
  have l: "int (length (take (nat max_body) (page_text (P html)))) \<le> max_body"
    using assms by simp
  show ?thesis
    using l assms
    by (simp add: build_read_pack_def build_blocks_def Let_def fromkeys_first_occurrences
        py_prefix_nonneg)
qed

theorem build_read_pack_sections_witness:
  "(0::int) \<le> 8
   \<and> build_read_pack (\<lambda>html. small_page) ''<html>'' 8 =
       ''[TITLE]'' @ [CHR 0x0A] @ ''Shop'' @ [CHR 0x0A, CHR 0x0A]
     @ ''[HEADLINES]'' @ [CHR 0x0A] @ ''- New'' @ [CHR 0x0A] @ ''- Sale'' @ [CHR 0x0A, CHR 0x0A]
     @ ''[LIST]'' @ [CHR 0x0A] @ ''- Tea'' @ [CHR 0x0A] @ ''- Tea'' @ [CHR 0x0A, CHR 0x0A]
     @ ''[BODY]'' @ [CHR 0x0A] @ ''Shop New''"
proof -
  have h: "(0::int) \<le> 8" by simp
  from build_read_pack_sections [OF h, of "\<lambda>html. small_page" "''<html>''"]
  show ?thesis
    by (simp add: small_page_def py_strip_def py_isspace_def)
qed

section \<open>Properties of the hotspot engine\<close>

lemma sqrt_less_iff_sq: "0 < d \<Longrightarrow> sqrt x < d \<longleftrightarrow> x < d\<^sup>2"
  by (metis abs_of_pos real_sqrt_abs real_sqrt_less_iff)

lemma and_then_Inl [simp]: "and_then (Inl e) f = Inl e"
  by (simp add: and_then_def)

lemma and_then_Inr [simp]: "and_then (Inr x) f = f x"
  by (simp add: and_then_def)

lemma and_then_eq_Inr: "and_then m f = Inr y \<longleftrightarrow> (\<exists>x. m = Inr x \<and> f x = Inr y)"
  by (cases m) simp_all

lemma map_of_clamp_key:
  "map_of (clamp_key A F key h) k =
     (if k = key then map_option (clamped_value A F) (map_of h k) else map_of h k)"
  by (auto simp: clamp_key_def clamped_value_def update_conv' split: option.splits sum.splits)

lemma map_of_fold_clamp:
  "distinct ks \<Longrightarrow>
   map_of (fold (clamp_key A F) ks h) k =
     (if k \<in> set ks then map_option (clamped_value A F) (map_of h k) else map_of h k)"
proof (induction ks arbitrary: h)
  case Nil
  then show ?case by simp
next
  case (Cons a ks)
  then show ?case by (auto simp: map_of_clamp_key)
qed

lemma distinct_geometry_keys: "distinct geometry_keys"
  by (simp add: geometry_keys_def)

lemma map_of_clamp_fields:
  "map_of (clamp_fields A F h) k =
     (if k \<in> set geometry_keys then map_option (clamped_value A F) (map_of h k) else map_of h k)"
  unfolding clamp_fields_def by (rule map_of_fold_clamp[OF distinct_geometry_keys])

lemma clamped_value_reads:
  "py_float A F (clamped_value A F v) = Inr r \<Longrightarrow> clamped_value A F v = JFloat r \<and> 0 \<le> r \<and> r \<le> 1"
  by (cases "py_float A F v") (auto simp: clamped_value_def)

lemma clamped_value_idem: "clamped_value A F (clamped_value A F v) = clamped_value A F v"
  by (cases "py_float A F v") (auto simp: clamped_value_def)

lemma merge_map_of:
  assumes "merge S a b = Inr m" and "k \<noteq> ''label''" and "k \<noteq> ''risks''"
    and "k \<noteq> ''suggested_edits''"
  shows "map_of m k = map_of a k"
  using assms unfolding merge_def Let_def and_then_eq_Inr
  by (elim exE conjE) (auto simp: update_conv' split: if_splits)

lemma merge_same_geometry: "merge S a b = Inr m \<Longrightarrow> same_geometry a m"
  by (simp add: same_geometry_def geometry_keys_def merge_map_of)

lemma same_geometry_refl: "same_geometry h h"
  by (simp add: same_geometry_def list_all_iff)

lemma same_geometry_trans: "same_geometry a b \<Longrightarrow> same_geometry b c \<Longrightarrow> same_geometry a c"
  by (simp add: same_geometry_def list_all_iff)

lemma same_geometry_dict_get:
  "same_geometry h k \<Longrightarrow> key \<in> set (''shape'' # geometry_keys) \<Longrightarrow>
   dict_get k key d = dict_get h key d"
  by (auto simp: same_geometry_def list_all_iff dict_get_def)

lemma same_geometry_bbox:
  assumes "same_geometry h k"
  shows "bbox A F k = bbox A F h"
proof -
  have g: "\<And>key d. key \<in> set (''shape'' # geometry_keys) \<Longrightarrow> dict_get k key d = dict_get h key d"
    using assms by (rule same_geometry_dict_get)
  have "dict_get k ''shape'' JNull = dict_get h ''shape'' JNull"
    and "dict_get k ''x'' (JInt 0) = dict_get h ''x'' (JInt 0)"
    and "dict_get k ''y'' (JInt 0) = dict_get h ''y'' (JInt 0)"
    and "dict_get k ''w'' (JInt 0) = dict_get h ''w'' (JInt 0)"
    and "dict_get k ''h'' (JInt 0) = dict_get h ''h'' (JInt 0)"
    and "dict_get k ''cx'' (JFloat 0.5) = dict_get h ''cx'' (JFloat 0.5)"
    and "dict_get k ''cy'' (JFloat 0.5) = dict_get h ''cy'' (JFloat 0.5)"
    and "dict_get k ''r'' (JFloat (rnd A 0.1)) = dict_get h ''r'' (JFloat (rnd A 0.1))"
    by (rule g, simp add: geometry_keys_def)+
  then show ?thesis unfolding bbox_def by (simp only:)
qed

lemma same_geometry_settled: "same_geometry h k \<Longrightarrow> settled A F h \<Longrightarrow> settled A F k"
  by (simp add: same_geometry_def settled_def geometry_keys_def)

lemma settled_clamp_fields: "settled A F (clamp_fields A F h)"
  by (simp add: settled_def list_all_iff map_of_clamp_fields clamped_value_idem
      split: option.splits)

lemma merge_into_Some:
  "merge_into A F S b h ks = Inr (Some ks') \<Longrightarrow> list_all2 same_geometry ks ks'"
proof (induction ks arbitrary: ks')
  case Nil
  then show ?case by simp
next
  case (Cons k ks)
  from Cons.prems obtain bk where bk: "bbox A F k = Inr bk"
    by (auto simp: and_then_eq_Inr)
  show ?case
  proof (cases "iou A b bk > rnd A 0.55 \<or> centerdist A b bk < rnd A 0.12")
    case True
    with Cons.prems bk obtain m where "merge S k h = Inr m" "ks' = m # ks"
      by (auto simp: and_then_eq_Inr)
    then show ?thesis
      by (simp add: merge_same_geometry list_all2_refl same_geometry_refl)
  next
    case False
    with Cons.prems bk obtain r where r: "merge_into A F S b h ks = Inr r" "map_option ((#) k) r = Some ks'"
      by (auto simp: and_then_eq_Inr)
    then obtain rest where "r = Some rest" "ks' = k # rest" by (cases r) auto
    with r Cons.IH show ?thesis by (simp add: same_geometry_refl)
  qed
qed

lemma merge_into_None:
  "merge_into A F S b h ks = Inr None \<Longrightarrow>
   \<forall>k \<in> set ks. \<exists>bk. bbox A F k = Inr bk \<and> \<not> close_boxes A b bk"
proof (induction ks)
  case Nil
  then show ?case by simp
next
  case (Cons k ks)
  from Cons.prems obtain bk where bk: "bbox A F k = Inr bk"
    by (auto simp: and_then_eq_Inr)
  have nc: "\<not> (iou A b bk > rnd A 0.55 \<or> centerdist A b bk < rnd A 0.12)"
  proof
    assume "iou A b bk > rnd A 0.55 \<or> centerdist A b bk < rnd A 0.12"
    with Cons.prems bk show False by (auto simp: and_then_eq_Inr)
  qed
  with Cons.prems bk obtain r where "merge_into A F S b h ks = Inr r" "map_option ((#) k) r = None"
    by (auto simp: and_then_eq_Inr)
  then have "merge_into A F S b h ks = Inr None" by simp
  with Cons.IH have "\<forall>k \<in> set ks. \<exists>bk. bbox A F k = Inr bk \<and> \<not> close_boxes A b bk" by simp
  moreover have "\<not> close_boxes A b bk" using nc unfolding close_boxes_def by simp
  ultimately show ?case using bk by (simp del: split_paired_Ex split_paired_All)
qed

lemma dedupe_step_cases:
  assumes "dedupe_step A F S kept h = Inr kept'"
  obtains b where "bbox A F h = Inr b" "merge_into A F S b h kept = Inr None"
      "kept' = kept @ [clamp_fields A F h]"
    | b where "bbox A F h = Inr b" "merge_into A F S b h kept = Inr (Some kept')"
proof -
  from assms obtain b r where b: "bbox A F h = Inr b" and r: "merge_into A F S b h kept = Inr r"
    and k: "(case r of Some kept' \<Rightarrow> Inr kept' | None \<Rightarrow> Inr (kept @ [clamp_fields A F h]))
            = (Inr kept' :: py_error + pydict list)"
    unfolding dedupe_step_def and_then_eq_Inr by blast
  show thesis
  proof (cases r)
    case None
    with b r k that(1) show ?thesis by simp
  next
    case (Some x)
    with b r k that(2) show ?thesis by simp
  qed
qed

lemma same_geometry_all_settled:
  "list_all2 same_geometry ks ks' \<Longrightarrow> list_all (settled A F) ks \<Longrightarrow> list_all (settled A F) ks'"
  by (induction rule: list_all2_induct) (auto intro: same_geometry_settled)

lemma dedupe_step_settled:
  assumes "dedupe_step A F S kept h = Inr kept'" and "list_all (settled A F) kept"
  shows "list_all (settled A F) kept'"
  using assms(1)
proof (cases rule: dedupe_step_cases)
  case (1 b)
  then show ?thesis using assms(2) by (simp add: settled_clamp_fields)
next
  case (2 b)
  then show ?thesis using assms(2) merge_into_Some same_geometry_all_settled by blast
qed

lemma dedupe_loop_settled:
  "dedupe_loop A F S kept hs = Inr out \<Longrightarrow> list_all (settled A F) kept \<Longrightarrow> list_all (settled A F) out"
proof (induction hs arbitrary: kept)
  case Nil
  then show ?case by simp
next
  case (Cons h hs)
  from Cons.prems(1) obtain kept' where s: "dedupe_step A F S kept h = Inr kept'"
    and l: "dedupe_loop A F S kept' hs = Inr out"
    by (auto simp: and_then_eq_Inr)
  from dedupe_step_settled[OF s Cons.prems(2)] l Cons.IH show ?case by blast
qed

lemma dedupe_hotspots_settled:
  assumes "dedupe_hotspots A F S hotspots = Inr out"
  shows "list_all (settled A F) out"
proof -
  from assms obtain hs kept where l: "dedupe_loop A F S [] hs = Inr kept" and o: "out = take 12 kept"
    unfolding dedupe_hotspots_def and_then_eq_Inr by blast
  from dedupe_loop_settled[OF l] have "list_all (settled A F) kept" by simp
  then show ?thesis unfolding o list_all_iff by (meson in_set_takeD)
qed

lemma py_iter_list: "py_iter (py_or (JArr xs) (JArr [])) = Inr xs"
  by (simp add: py_or_def)

lemma dicts_of_dicts: "dicts_of (map JObj ds) = ds"
  by (induction ds) (simp_all add: dicts_of_def List.map_filter_def)

lemma bbox_circle_like:
  assumes "\<not> truthy (dict_get h ''shape'' JNull)
           \<or> (\<exists>s. dict_get h ''shape'' JNull = JStr s \<and> py_lower s \<noteq> ''rect'')"
  shows "bbox A F h =
         bbox A F [(''shape'', JStr ''circle''), (''cx'', dict_get h ''cx'' (JFloat 0.5)),
                 (''cy'', dict_get h ''cy'' (JFloat 0.5)),
                 (''r'', dict_get h ''r'' (JFloat (rnd A 0.1)))]"
proof -
  let ?c = "and_then (py_float A F (dict_get h ''cx'' (JFloat 0.5))) (\<lambda>cx.
            and_then (py_float A F (dict_get h ''cy'' (JFloat 0.5))) (\<lambda>cy.
            and_then (py_float A F (dict_get h ''r'' (JFloat (rnd A 0.1)))) (\<lambda>r.
              Inr (rnd A (cx - r), rnd A (cy - r), rnd A (cx + r), rnd A (cy + r)))))"
  have r: "bbox A F [(''shape'', JStr ''circle''), (''cx'', dict_get h ''cx'' (JFloat 0.5)),
                 (''cy'', dict_get h ''cy'' (JFloat 0.5)),
                 (''r'', dict_get h ''r'' (JFloat (rnd A 0.1)))] = ?c"
    by (simp add: bbox_def py_or_def py_lower_def lower_char_def dict_get_def[of "_ # _"])
  from assms have "bbox A F h = ?c"
  proof
    assume "\<not> truthy (dict_get h ''shape'' JNull)"
    then show ?thesis by (simp add: bbox_def py_or_def py_lower_def lower_char_def)
  next
    assume "\<exists>s. dict_get h ''shape'' JNull = JStr s \<and> py_lower s \<noteq> ''rect''"
    then obtain s where "dict_get h ''shape'' JNull = JStr s" "py_lower s \<noteq> ''rect''" by blast
    then show ?thesis by (simp add: bbox_def py_or_def py_lower_def lower_char_def)
  qed
  with r show ?thesis by simp
qed

lemma bbox_rect_like:
  assumes "dict_get h ''shape'' JNull = JStr s" and "py_lower s = ''rect''"
  shows "bbox A F h =
         bbox A F [(''shape'', JStr ''rect''), (''x'', dict_get h ''x'' (JInt 0)),
                 (''y'', dict_get h ''y'' (JInt 0)), (''w'', dict_get h ''w'' (JInt 0)),
                 (''h'', dict_get h ''h'' (JInt 0))]"
proof -
  let ?c = "and_then (py_float A F (dict_get h ''x'' (JInt 0))) (\<lambda>x.
            and_then (py_float A F (dict_get h ''y'' (JInt 0))) (\<lambda>y.
            and_then (py_float A F (dict_get h ''w'' (JInt 0))) (\<lambda>w.
            and_then (py_float A F (dict_get h ''h'' (JInt 0))) (\<lambda>hgt.
              Inr (x, y, rnd A (x + w), rnd A (y + hgt))))))"
  have s: "s \<noteq> []" using assms(2) by (auto simp: py_lower_def)
  have r: "bbox A F [(''shape'', JStr ''rect''), (''x'', dict_get h ''x'' (JInt 0)),
                 (''y'', dict_get h ''y'' (JInt 0)), (''w'', dict_get h ''w'' (JInt 0)),
                 (''h'', dict_get h ''h'' (JInt 0))] = ?c"
    by (simp add: bbox_def py_or_def py_lower_def lower_char_def dict_get_def[of "_ # _"])
  have "bbox A F h = ?c"
    using assms s by (simp add: bbox_def py_or_def)
  with r show ?thesis by simp
qed

subsection \<open>The clamp on settled and in-range hotspots\<close>

lemma clamp_key_settled:
  assumes "case map_of h key of None \<Rightarrow> True | Some v \<Rightarrow> clamped_value A F v = v"
  shows "clamp_key A F key h = h"
proof (cases "map_of h key")
  case None
  then show ?thesis by (simp add: clamp_key_def)
next
  case (Some v)
  with assms have c: "clamped_value A F v = v" by simp
  show ?thesis
  proof (cases "py_float A F v")
    case (Inl e)
    with Some show ?thesis by (simp add: clamp_key_def)
  next
    case (Inr r)
    with c have "JFloat (max 0 (min 1 r)) = v" by (simp add: clamped_value_def)
    with Some Inr show ?thesis by (simp add: clamp_key_def update_triv)
  qed
qed

lemma fold_clamp_settled:
  "list_all (\<lambda>key. case map_of h key of None \<Rightarrow> True | Some v \<Rightarrow> clamped_value A F v = v) ks
   \<Longrightarrow> fold (clamp_key A F) ks h = h"
  by (induction ks) (simp_all add: clamp_key_settled)

lemma clamp_fields_settled: "settled A F h \<Longrightarrow> clamp_fields A F h = h"
  unfolding settled_def clamp_fields_def by (rule fold_clamp_settled)

lemma clamped_value_in_range:
  assumes "case py_float A F v of Inl e \<Rightarrow> True | Inr r \<Rightarrow> 0 \<le> r \<and> r \<le> 1"
  shows "py_float A F (clamped_value A F v) = py_float A F v"
  using assms by (cases "py_float A F v") (auto simp: clamped_value_def)

lemma dict_get_clamp_fields:
  "dict_get (clamp_fields A F h) key d =
     (if key \<in> set geometry_keys
      then (case map_of h key of None \<Rightarrow> d | Some v \<Rightarrow> clamped_value A F v)
      else dict_get h key d)"
  by (simp add: dict_get_def map_of_clamp_fields split: option.splits)

lemma py_float_clamp_fields:
  assumes "in_unit_range A F h" and "key \<in> set geometry_keys"
  shows "py_float A F (dict_get (clamp_fields A F h) key d) = py_float A F (dict_get h key d)"
proof (cases "map_of h key")
  case None
  then have "dict_get h key d = d" by (simp add: dict_get_def)
  moreover have "dict_get (clamp_fields A F h) key d = d"
    using None assms(2) by (simp add: dict_get_clamp_fields)
  ultimately show ?thesis by simp
next
  case (Some v)
  from assms(1,2) Some
  have "case py_float A F v of Inl e \<Rightarrow> True | Inr r \<Rightarrow> 0 \<le> r \<and> r \<le> 1"
    by (auto simp: in_unit_range_def list_all_iff)
  then have "py_float A F (clamped_value A F v) = py_float A F v"
    by (rule clamped_value_in_range)
  moreover have "dict_get h key d = v" using Some by (simp add: dict_get_def)
  moreover have "dict_get (clamp_fields A F h) key d = clamped_value A F v"
    using Some assms(2) by (simp add: dict_get_clamp_fields)
  ultimately show ?thesis by simp
qed

lemma bbox_clamp_fields:
  assumes "in_unit_range A F h"
  shows "bbox A F (clamp_fields A F h) = bbox A F h"
proof -
  have s: "dict_get (clamp_fields A F h) ''shape'' JNull = dict_get h ''shape'' JNull"
    by (simp add: dict_get_clamp_fields geometry_keys_def)
  have "py_float A F (dict_get (clamp_fields A F h) ''x'' (JInt 0)) = py_float A F (dict_get h ''x'' (JInt 0))"
    and "py_float A F (dict_get (clamp_fields A F h) ''y'' (JInt 0)) = py_float A F (dict_get h ''y'' (JInt 0))"
    and "py_float A F (dict_get (clamp_fields A F h) ''w'' (JInt 0)) = py_float A F (dict_get h ''w'' (JInt 0))"
    and "py_float A F (dict_get (clamp_fields A F h) ''h'' (JInt 0)) = py_float A F (dict_get h ''h'' (JInt 0))"
    and "py_float A F (dict_get (clamp_fields A F h) ''cx'' (JFloat 0.5)) = py_float A F (dict_get h ''cx'' (JFloat 0.5))"
    and "py_float A F (dict_get (clamp_fields A F h) ''cy'' (JFloat 0.5)) = py_float A F (dict_get h ''cy'' (JFloat 0.5))"
    and "py_float A F (dict_get (clamp_fields A F h) ''r'' (JFloat (rnd A 0.1))) = py_float A F (dict_get h ''r'' (JFloat (rnd A 0.1)))"
    by (rule py_float_clamp_fields[OF assms], simp add: geometry_keys_def)+
  with s show ?thesis unfolding bbox_def by (simp only:)
qed

subsection \<open>The sort\<close>

lemma keyed_Inr:
  "keyed A F hs = Inr ks \<Longrightarrow>
   ks = map (\<lambda>h. (area_key A F h, h)) hs \<and> (\<forall>h \<in> set hs. \<exists>b. bbox A F h = Inr b)"
proof (induction hs arbitrary: ks)
  case Nil
  then show ?case by simp
next
  case (Cons h hs)
  from Cons.prems obtain b ks' where b: "bbox A F h = Inr b" and k: "keyed A F hs = Inr ks'"
    and e: "ks = (area A b, h) # ks'"
    by (auto simp: and_then_eq_Inr)
  from Cons.IH[OF k] b e show ?case
    by (simp add: area_key_def del: split_paired_Ex split_paired_All)
qed

lemma keyed_total:
  "\<forall>h \<in> set hs. \<exists>b. bbox A F h = Inr b \<Longrightarrow> keyed A F hs = Inr (map (\<lambda>h. (area_key A F h, h)) hs)"
  by (induction hs) (auto simp: area_key_def)

lemma sorted_by_area_Inr:
  assumes "sorted_by_area A F hs = Inr hs_sorted"
  shows "hs_sorted = map snd (sort_key (\<lambda>p. - fst p) (map (\<lambda>h. (area_key A F h, h)) hs))"
    and "\<forall>h \<in> set hs. \<exists>b. bbox A F h = Inr b"
    and "set hs_sorted = set hs"
    and "sorted_wrt (\<lambda>x y. x \<ge> y) (map (area_key A F) hs_sorted)"
proof -
  from assms obtain ks where k: "keyed A F hs = Inr ks"
    and e: "hs_sorted = map snd (sort_key (\<lambda>p. - fst p) ks)"
    by (auto simp: sorted_by_area_def and_then_eq_Inr)
  from keyed_Inr[OF k] have ks: "ks = map (\<lambda>h. (area_key A F h, h)) hs"
    and d: "\<forall>h \<in> set hs. \<exists>b. bbox A F h = Inr b" by simp_all
  show "hs_sorted = map snd (sort_key (\<lambda>p. - fst p) (map (\<lambda>h. (area_key A F h, h)) hs))"
    using e ks by simp
  show "\<forall>h \<in> set hs. \<exists>b. bbox A F h = Inr b" by (rule d)
  show "set hs_sorted = set hs" using e ks by (simp add: image_image)
  have p: "\<forall>p \<in> set (sort_key (\<lambda>p. - fst p) ks). fst p = area_key A F (snd p)"
    using ks by auto
  have "sorted (map (\<lambda>p. - fst p) (sort_key (\<lambda>p. - fst p) ks))"
    by (rule sorted_sort_key)
  then have "sorted_wrt (\<lambda>p q. fst p \<ge> fst q) (sort_key (\<lambda>p. - fst p) ks)"
    by (simp add: sorted_map)
  then have "sorted_wrt (\<lambda>p q. area_key A F (snd p) \<ge> area_key A F (snd q)) (sort_key (\<lambda>p. - fst p) ks)"
  proof (rule sorted_wrt_mono_rel[rotated])
    fix x y
    assume "x \<in> set (sort_key (\<lambda>p. - fst p) ks)" "y \<in> set (sort_key (\<lambda>p. - fst p) ks)"
      and "fst y \<le> fst x"
    with p show "area_key A F (snd y) \<le> area_key A F (snd x)" by metis
  qed
  then show "sorted_wrt (\<lambda>x y. x \<ge> y) (map (area_key A F) hs_sorted)"
    by (simp add: e sorted_wrt_map)
qed

lemma sorted_by_area_id:
  assumes "\<forall>h \<in> set ks. \<exists>b. bbox A F h = Inr b"
    and "sorted_wrt (\<lambda>x y. x \<ge> y) (map (area_key A F) ks)"
  shows "sorted_by_area A F ks = Inr ks"
proof -
  have "sorted (map (\<lambda>p. - fst p) (map (\<lambda>h. (area_key A F h, h)) ks))"
    using assms(2) by (simp add: sorted_map sorted_wrt_map comp_def)
  then have "sort_key (\<lambda>p. - fst p) (map (\<lambda>h. (area_key A F h, h)) ks)
             = map (\<lambda>h. (area_key A F h, h)) ks"
    by (rule sort_key_id_if_sorted)
  then show ?thesis
    by (simp add: sorted_by_area_def keyed_total[OF assms(1)] comp_def)
qed

subsection \<open>The loop\<close>

lemma merge_into_None_intro:
  "\<forall>k \<in> set ks. \<exists>bk. bbox A F k = Inr bk \<and> \<not> close_boxes A b bk \<Longrightarrow>
   merge_into A F S b h ks = Inr None"
proof (induction ks)
  case Nil
  then show ?case by simp
next
  case (Cons k ks)
  then obtain bk where "bbox A F k = Inr bk" "\<not> close_boxes A b bk" by auto
  moreover from Cons have "merge_into A F S b h ks = Inr None" by simp
  ultimately show ?case by (simp add: close_boxes_def)
qed

lemma same_geometry_maps:
  "list_all2 same_geometry ks ks' \<Longrightarrow>
   map (bbox A F) ks' = map (bbox A F) ks \<and> map (area_key A F) ks' = map (area_key A F) ks"
  by (induction rule: list_all2_induct) (simp_all add: same_geometry_bbox area_key_def)

lemma dedupe_loop_fixpoint:
  assumes "list_all (settled A F) rest"
    and "\<forall>x \<in> set (map (bbox A F) (pre @ rest)). \<exists>b. x = Inr b"
    and "sorted_wrt (\<lambda>x y. \<not> box_close A y x) (map (bbox A F) (pre @ rest))"
  shows "dedupe_loop A F S pre rest = Inr (pre @ rest)"
  using assms
proof (induction rest arbitrary: pre)
  case Nil
  then show ?case by simp
next
  case (Cons h rest)
  have "bbox A F h \<in> set (map (bbox A F) (pre @ h # rest))" by simp
  with Cons.prems(2) obtain b where b: "bbox A F h = Inr b" by blast
  have "\<forall>k \<in> set pre. \<exists>bk. bbox A F k = Inr bk \<and> \<not> close_boxes A b bk"
  proof
    fix k assume k: "k \<in> set pre"
    then have "bbox A F k \<in> set (map (bbox A F) (pre @ h # rest))" by simp
    with Cons.prems(2) obtain bk where bk: "bbox A F k = Inr bk" by blast
    from Cons.prems(3) k have "\<not> box_close A (bbox A F h) (bbox A F k)"
      by (auto simp: sorted_wrt_append)
    with b bk have "\<not> close_boxes A b bk" by (simp add: box_close_def)
    with bk show "\<exists>bk. bbox A F k = Inr bk \<and> \<not> close_boxes A b bk" by blast
  qed
  then have "merge_into A F S b h pre = Inr None" by (rule merge_into_None_intro)
  moreover have "clamp_fields A F h = h" using Cons.prems(1) by (simp add: clamp_fields_settled)
  ultimately have s: "dedupe_step A F S pre h = Inr (pre @ [h])"
    using b by (simp add: dedupe_step_def)
  have "dedupe_loop A F S (pre @ [h]) rest = Inr ((pre @ [h]) @ rest)"
    using Cons.prems by (intro Cons.IH) simp_all
  with s show ?case by simp
qed

lemma dedupe_loop_apart:
  assumes "dedupe_loop A F S kept hs = Inr out"
    and "\<forall>h \<in> set hs. in_unit_range A F h"
    and "\<forall>x \<in> set (map (bbox A F) kept). \<exists>b. x = Inr b"
    and "sorted_wrt (\<lambda>x y. \<not> box_close A y x) (map (bbox A F) kept)"
    and "sorted_wrt (\<lambda>x y. x \<ge> y) (map (area_key A F) kept @ map (area_key A F) hs)"
  shows "(\<forall>x \<in> set (map (bbox A F) out). \<exists>b. x = Inr b)
       \<and> sorted_wrt (\<lambda>x y. \<not> box_close A y x) (map (bbox A F) out)
       \<and> sorted_wrt (\<lambda>x y. x \<ge> y) (map (area_key A F) out)"
  using assms
proof (induction hs arbitrary: kept)
  case Nil
  then show ?case by simp
next
  case (Cons h hs)
  from Cons.prems(1) obtain kept' where s: "dedupe_step A F S kept h = Inr kept'"
    and l: "dedupe_loop A F S kept' hs = Inr out"
    by (auto simp: and_then_eq_Inr)
  have r: "\<forall>h \<in> set hs. in_unit_range A F h" using Cons.prems(2) by simp
  from s show ?case
  proof (cases rule: dedupe_step_cases)
    case (1 b)
    have bc: "bbox A F (clamp_fields A F h) = Inr b"
      using Cons.prems(2) 1(1) by (simp add: bbox_clamp_fields)
    have i1: "\<forall>x \<in> set (map (bbox A F) kept'). \<exists>b. x = Inr b"
      using Cons.prems(3) bc 1(3) by (auto simp del: split_paired_Ex split_paired_All)
    have "\<forall>x \<in> set (map (bbox A F) kept). \<not> box_close A (Inr b) x"
    proof
      fix x assume "x \<in> set (map (bbox A F) kept)"
      then obtain k where k: "k \<in> set kept" "x = bbox A F k" by auto
      with merge_into_None[OF 1(2)] obtain bk where "bbox A F k = Inr bk" "\<not> close_boxes A b bk"
        by blast
      with k show "\<not> box_close A (Inr b) x" by (simp add: box_close_def)
    qed
    then have i2: "sorted_wrt (\<lambda>x y. \<not> box_close A y x) (map (bbox A F) kept')"
      using Cons.prems(4) bc 1(3) by (simp add: sorted_wrt_append)
    have "area_key A F (clamp_fields A F h) = area_key A F h"
      using bc 1(1) by (simp add: area_key_def)
    then have i3: "sorted_wrt (\<lambda>x y. x \<ge> y) (map (area_key A F) kept' @ map (area_key A F) hs)"
      using Cons.prems(5) 1(3) by simp
    from Cons.IH[OF l r i1 i2 i3] show ?thesis .
  next
    case (2 b)
    from same_geometry_maps[OF merge_into_Some[OF 2(2)]]
    have m: "map (bbox A F) kept' = map (bbox A F) kept"
      and a: "map (area_key A F) kept' = map (area_key A F) kept" by simp_all
    have i1: "\<forall>x \<in> set (map (bbox A F) kept'). \<exists>b. x = Inr b"
      using Cons.prems(3) m by simp
    have i2: "sorted_wrt (\<lambda>x y. \<not> box_close A y x) (map (bbox A F) kept')"
      using Cons.prems(4) m by simp
    have i3: "sorted_wrt (\<lambda>x y. x \<ge> y) (map (area_key A F) kept' @ map (area_key A F) hs)"
      using Cons.prems(5) a by (simp add: sorted_wrt_append)
    from Cons.IH[OF l r i1 i2 i3] show ?thesis .
  qed
qed

subsection \<open>The order of the output\<close>

lemma dedupe_loop_origins:
  assumes "dedupe_loop A F S kept hs = Inr out"
    and "list_all2 (kept_for A F) cs kept"
    and "sorted_wrt (\<lambda>x y. x \<ge> y) (map (area_key A F) (cs @ hs))"
  shows "\<exists>cs'. list_all2 (kept_for A F) cs' out \<and> set cs' \<subseteq> set cs \<union> set hs
             \<and> sorted_wrt (\<lambda>x y. x \<ge> y) (map (area_key A F) cs')"
  using assms
proof (induction hs arbitrary: kept cs)
  case Nil
  then show ?case by auto
next
  case (Cons h hs)
  from Cons.prems(1) obtain kept' where s: "dedupe_step A F S kept h = Inr kept'"
    and l: "dedupe_loop A F S kept' hs = Inr out"
    by (auto simp: and_then_eq_Inr)
  from s show ?case
  proof (cases rule: dedupe_step_cases)
    case (1 b)
    have "kept_for A F h (clamp_fields A F h)"
      by (simp add: kept_for_def same_geometry_refl)
    then have "list_all2 (kept_for A F) [h] [clamp_fields A F h]" by simp
    with Cons.prems(2) have a: "list_all2 (kept_for A F) (cs @ [h]) kept'"
      unfolding 1(3) by (rule list_all2_appendI)
    have b: "sorted_wrt (\<lambda>x y. x \<ge> y) (map (area_key A F) ((cs @ [h]) @ hs))"
      using Cons.prems(3) by simp
    from Cons.IH[OF l a b] show ?thesis by auto
  next
    case (2 b)
    have a: "list_all2 (kept_for A F) cs kept'"
      using Cons.prems(2) merge_into_Some[OF 2(2)]
      by (rule list_all2_trans[rotated]) (auto simp: kept_for_def intro: same_geometry_trans)
    have b: "sorted_wrt (\<lambda>x y. x \<ge> y) (map (area_key A F) (cs @ hs))"
      using Cons.prems(3) by (simp add: sorted_wrt_append)
    from Cons.IH[OF l a b] show ?thesis by auto
  qed
qed



lemmas eval_hotspots =
  dedupe_hotspots_def sorted_by_area_def dicts_of_def List.map_filter_def py_or_def bbox_def
  dict_get_def py_lower_def lower_char_def area_def dedupe_step_def iou_def centerdist_def
  rnd_exact hypot_exact float_limit_def sqrt_less_iff_sq clamp_fields_def geometry_keys_def
  clamp_key_def merge_def py_set_def Let_def

section \<open>The claims on the hotspot engine\<close>

lemma kept_for_fields:
  assumes "kept_for A F c k" and "key \<in> set geometry_keys"
  shows "map_of k key =
         (case map_of c key of
            None \<Rightarrow> None
          | Some v \<Rightarrow>
              (case py_float A F v of
                 Inl e \<Rightarrow> Some v
               | Inr r \<Rightarrow> Some (JFloat (max 0 (min 1 r)))))"
proof -
  from assms have "map_of k key = map_of (clamp_fields A F c) key"
    by (simp add: kept_for_def same_geometry_def list_all_iff)
  also have "\<dots> = map_option (clamped_value A F) (map_of c key)"
    using assms(2) by (simp add: map_of_clamp_fields)
  finally show ?thesis
    by (simp add: clamped_value_def split: option.splits sum.splits)
qed

lemma dedupe_hotspots_origins:
  assumes "dedupe_hotspots A F S hotspots = Inr out"
  shows "\<exists>items cands. py_iter (py_or hotspots (JArr [])) = Inr items
           \<and> set cands \<subseteq> set (dicts_of items)
           \<and> sorted_wrt (\<lambda>x y. x \<ge> y) (map (area_key A F) cands)
           \<and> list_all2 (kept_for A F) cands out"
proof -
  from assms obtain items hs_sorted kept where
    it: "py_iter (py_or hotspots (JArr [])) = Inr items"
    and so: "sorted_by_area A F (dicts_of items) = Inr hs_sorted"
    and l: "dedupe_loop A F S [] hs_sorted = Inr kept" and o: "out = take 12 kept"
    unfolding dedupe_hotspots_def and_then_eq_Inr by blast
  from sorted_by_area_Inr[OF so]
  have st: "set hs_sorted = set (dicts_of items)"
    and sa: "sorted_wrt (\<lambda>x y. x \<ge> y) (map (area_key A F) hs_sorted)" by simp_all
  from dedupe_loop_origins[OF l, of "[]"] sa
  obtain cs where c1: "list_all2 (kept_for A F) cs kept" and c2: "set cs \<subseteq> set hs_sorted"
    and c3: "sorted_wrt (\<lambda>x y. x \<ge> y) (map (area_key A F) cs)" by auto
  have "list_all2 (kept_for A F) (take 12 cs) out" unfolding o using c1 by (rule list_all2_takeI)
  moreover have "set (take 12 cs) \<subseteq> set (dicts_of items)"
    using c2 st by (auto dest: in_set_takeD)
  moreover have "sorted_wrt (\<lambda>x y. x \<ge> y) (map (area_key A F) (take 12 cs))"
    using c3 by (simp add: take_map[symmetric])
  ultimately show ?thesis using it by blast
qed

text \<open>
  Claim C3, as stated, fails on a circle that carries the unused field \<open>x\<close> as null: the
  clamp skips what \<^verbatim>\<open>float\<close> rejects, and the hotspot comes back with \<open>x\<close> still null,
  which is no number of the unit interval.
\<close>

theorem dedupe_hotspots_keeps_null_field:
  "dedupe_hotspots exact_ops (\<lambda>s. None) remdups (JArr [JObj null_x_circle]) = Inr [null_x_circle]
   \<and> map_of null_x_circle ''x'' = Some JNull"
  by (simp add: eval_hotspots null_x_circle_def)

text \<open>
  Claim C3, amended. Every hotspot that \<open>dedupe_hotspots\<close> returns comes from a candidate
  of the input list, and each of its positional fields (x, y, w, h, cx, cy, r) is the
  candidate's field treated as follows: a field the candidate lacks stays absent; a field
  that \<^verbatim>\<open>float\<close> accepts becomes that number clamped into the unit interval, whatever the
  candidate held, negative values and values above 1 included; a field that \<^verbatim>\<open>float\<close>
  rejects is left as it is. Hence every positional field of a returned hotspot that
  reads as a number is a number of the unit interval.
\<close>

theorem dedupe_hotspots_clamps_numbers:
  assumes "dedupe_hotspots A F S hotspots = Inr out" and "k \<in> set out"
  shows "\<exists>items c. py_iter (py_or hotspots (JArr [])) = Inr items \<and> c \<in> set (dicts_of items)
     \<and> (\<forall>key \<in> set geometry_keys.
           map_of k key =
             (case map_of c key of
                None \<Rightarrow> None
              | Some v \<Rightarrow>
                  (case py_float A F v of
                     Inl e \<Rightarrow> Some v
                   | Inr r \<Rightarrow> Some (JFloat (max 0 (min 1 r))))))
     \<and> (\<forall>key \<in> set geometry_keys. \<forall>v r.
           map_of k key = Some v \<longrightarrow> py_float A F v = Inr r
           \<longrightarrow> v = JFloat r \<and> 0 \<le> r \<and> r \<le> 1)"
proof -
  from dedupe_hotspots_origins[OF assms(1)] obtain items cands where
    it: "py_iter (py_or hotspots (JArr [])) = Inr items"
    and sub: "set cands \<subseteq> set (dicts_of items)"
    and rel: "list_all2 (kept_for A F) cands out" by blast
  from assms(2) obtain i where i: "i < length out" "out ! i = k"
    by (auto simp: in_set_conv_nth)
  with rel have kf: "kept_for A F (cands ! i) k" and len: "i < length cands"
    by (auto simp: list_all2_conv_all_nth)
  from len sub have c: "cands ! i \<in> set (dicts_of items)" by auto
  have f: "\<forall>key \<in> set geometry_keys.
           map_of k key =
             (case map_of (cands ! i) key of
                None \<Rightarrow> None
              | Some v \<Rightarrow>
                  (case py_float A F v of
                     Inl e \<Rightarrow> Some v
                   | Inr r \<Rightarrow> Some (JFloat (max 0 (min 1 r)))))"
    using kept_for_fields[OF kf] by blast
  from dedupe_hotspots_settled[OF assms(1)] assms(2) have se: "settled A F k"
    by (simp add: list_all_iff)
  have g: "\<forall>key \<in> set geometry_keys. \<forall>v r.
           map_of k key = Some v \<longrightarrow> py_float A F v = Inr r
           \<longrightarrow> v = JFloat r \<and> 0 \<le> r \<and> r \<le> 1"
  proof (intro ballI allI impI)
    fix key v r
    assume "key \<in> set geometry_keys" "map_of k key = Some v" "py_float A F v = Inr r"
    with se have "clamped_value A F v = v" "py_float A F v = Inr r"
      by (auto simp: settled_def list_all_iff)
    then show "v = JFloat r \<and> 0 \<le> r \<and> r \<le> 1"
      using clamped_value_reads[of A F v r] by simp
  qed
  from it c f g show ?thesis by blast
qed

theorem dedupe_hotspots_clamps_numbers_witness:
  "dedupe_hotspots exact_ops (\<lambda>s. None) remdups (JArr [JInt 3, JObj stray_circle])
     = Inr [stray_circle_clamped]
   \<and> stray_circle_clamped \<in> set [stray_circle_clamped]
   \<and> dicts_of [JInt 3, JObj stray_circle] = [stray_circle]
   \<and> map (map_of stray_circle) geometry_keys
       = [Some JNull, None, Some (JInt (10 ^ 400)), None,
          Some (JFloat 1.5), Some (JFloat (- 0.25)), Some (JFloat 0.125)]
   \<and> map (map_of stray_circle_clamped) geometry_keys
       = [Some JNull, None, Some (JInt (10 ^ 400)), None,
          Some (JFloat 1), Some (JFloat 0), Some (JFloat 0.125)]"
proof -
  have d: "dedupe_hotspots exact_ops (\<lambda>s. None) remdups (JArr [JInt 3, JObj stray_circle])
     = Inr [stray_circle_clamped]"
    by (simp add: eval_hotspots stray_circle_def stray_circle_clamped_def)
  have m: "stray_circle_clamped \<in> set [stray_circle_clamped]"
    by simp
  have i: "dicts_of [JInt 3, JObj stray_circle] = [stray_circle]"
    by (simp add: dicts_of_def List.map_filter_def)
  have a: "map (map_of stray_circle) geometry_keys
       = [Some JNull, None, Some (JInt (10 ^ 400)), None,
          Some (JFloat 1.5), Some (JFloat (- 0.25)), Some (JFloat 0.125)]"
    by (simp add: stray_circle_def geometry_keys_def)
  have b: "map (map_of stray_circle_clamped) geometry_keys
       = [Some JNull, None, Some (JInt (10 ^ 400)), None,
          Some (JFloat 1), Some (JFloat 0), Some (JFloat 0.125)]"
    by (simp add: stray_circle_clamped_def geometry_keys_def)
  from dedupe_hotspots_clamps_numbers [OF d m] d m i a b show ?thesis by blast
qed

text \<open>
  Claim C4. Two circles on nearly the same spot, each with the one suggested edit
  \<open>recolour\<close>, merge into the larger one. Its risks are the set of both risk lists; its
  suggested edits are the set of its own edits followed by the list of the other's
  edits, so the shared edit stands twice. (The set of a single member has one order.)
\<close>

theorem dedupe_hotspots_repeats_suggested_edit:
  "dedupe_hotspots exact_ops F S (JArr [JObj twin_a, JObj twin_b]) =
   Inr [[(''shape'', JStr ''circle''), (''cx'', JFloat 0.5), (''cy'', JFloat 0.5),
      (''r'', JFloat 0.1), (''label'', JStr ''logo''),
      (''risks'', JArr (S [JStr ''off-brand colour'', JStr ''off-brand colour''])),
      (''suggested_edits'', JArr (S [JStr ''recolour''] @ [JStr ''recolour'']))]]"
  by (simp add: eval_hotspots twin_a_def twin_b_def)

text \<open>
  Claim C10, as stated, fails on a candidate whose shape is a number: the field is not
  the word rect, and the candidate is not treated as a circle, because \<^verbatim>\<open>lower\<close> is
  called on whatever the field holds and raises on what is not a string.
\<close>

theorem dedupe_hotspots_raises_on_numbered_shape:
  "dict_get numbered_shape ''shape'' JNull \<noteq> JStr ''rect''
   \<and> dedupe_hotspots exact_ops (\<lambda>s. None) remdups (JArr [JObj numbered_shape])
       = Inl AttributeError"
  by (simp add: eval_hotspots numbered_shape_def)

text \<open>
  Claim C10, amended. Items of the candidate list that are not objects are dropped
  before anything else. A candidate whose shape is missing or falsy, or is a string that
  in lower case is not rect, has the box of a circle whose missing centre and radius are
  0.5, 0.5 and 0.1; a candidate whose shape is a string that in lower case is rect has
  the box of a rectangle whose missing x, y, w and h are 0. Areas and merge tests are
  computed from that box alone. This holds in every arithmetic; without rounding the box
  of a circle with nothing given is (0.4, 0.4, 0.6, 0.6).
\<close>

theorem hotspot_defaults:
  "dedupe_hotspots A F S (JArr items) = dedupe_hotspots A F S (JArr (map JObj (dicts_of items)))
   \<and> ((\<not> truthy (dict_get h ''shape'' JNull)
        \<or> (\<exists>s. dict_get h ''shape'' JNull = JStr s \<and> py_lower s \<noteq> ''rect''))
       \<longrightarrow> bbox A F h =
           bbox A F [(''shape'', JStr ''circle''), (''cx'', dict_get h ''cx'' (JFloat 0.5)),
                   (''cy'', dict_get h ''cy'' (JFloat 0.5)),
                   (''r'', dict_get h ''r'' (JFloat (rnd A 0.1)))])
   \<and> ((\<exists>s. dict_get h ''shape'' JNull = JStr s \<and> py_lower s = ''rect'')
       \<longrightarrow> bbox A F h =
           bbox A F [(''shape'', JStr ''rect''), (''x'', dict_get h ''x'' (JInt 0)),
                   (''y'', dict_get h ''y'' (JInt 0)), (''w'', dict_get h ''w'' (JInt 0)),
                   (''h'', dict_get h ''h'' (JInt 0))])
   \<and> bbox A F [(''shape'', JStr ''circle'')]
       = Inr (rnd A (0.5 - rnd A 0.1), rnd A (0.5 - rnd A 0.1),
              rnd A (0.5 + rnd A 0.1), rnd A (0.5 + rnd A 0.1))
   \<and> bbox A F [(''shape'', JStr ''rect'')]
       = Inr (rnd A 0, rnd A 0, rnd A (rnd A 0 + rnd A 0), rnd A (rnd A 0 + rnd A 0))
   \<and> bbox exact_ops F [(''shape'', JStr ''circle'')] = Inr (0.4, 0.4, 0.6, 0.6)
   \<and> bbox exact_ops F [(''shape'', JStr ''rect'')] = Inr (0, 0, 0, 0)"
proof -
  have a: "dedupe_hotspots A F S (JArr items)
           = dedupe_hotspots A F S (JArr (map JObj (dicts_of items)))"
    by (simp add: dedupe_hotspots_def py_iter_list dicts_of_dicts)
  have d: "bbox A F [(''shape'', JStr ''circle'')]
       = Inr (rnd A (0.5 - rnd A 0.1), rnd A (0.5 - rnd A 0.1),
              rnd A (0.5 + rnd A 0.1), rnd A (0.5 + rnd A 0.1))"
    by (simp add: bbox_def py_or_def dict_get_def py_lower_def lower_char_def)
  have e: "bbox A F [(''shape'', JStr ''rect'')]
       = Inr (rnd A 0, rnd A 0, rnd A (rnd A 0 + rnd A 0), rnd A (rnd A 0 + rnd A 0))"
    by (simp add: bbox_def py_or_def dict_get_def py_lower_def lower_char_def float_limit_def)
  have d': "bbox exact_ops F [(''shape'', JStr ''circle'')] = Inr (0.4, 0.4, 0.6, 0.6)"
    by (simp add: bbox_def py_or_def dict_get_def py_lower_def lower_char_def rnd_exact)
  have e': "bbox exact_ops F [(''shape'', JStr ''rect'')] = Inr (0, 0, 0, 0)"
    by (simp add: bbox_def py_or_def dict_get_def py_lower_def lower_char_def rnd_exact
        float_limit_def)
  show ?thesis using a bbox_circle_like bbox_rect_like d e d' e' by blast
qed

theorem hotspot_defaults_witness:
  "(\<exists>s. dict_get [(''shape'', JStr ''Oval''), (''r'', JFloat 0.2)] ''shape'' JNull = JStr s
        \<and> py_lower s \<noteq> ''rect'')
   \<and> bbox exact_ops (\<lambda>s. None) [(''shape'', JStr ''Oval''), (''r'', JFloat 0.2)]
       = Inr (0.3, 0.3, 0.7, 0.7)
   \<and> (\<exists>s. dict_get [(''shape'', JStr ''RECT''), (''w'', JFloat 0.2)] ''shape'' JNull = JStr s
        \<and> py_lower s = ''rect'')
   \<and> bbox exact_ops (\<lambda>s. None) [(''shape'', JStr ''RECT''), (''w'', JFloat 0.2)]
       = Inr (0, 0, 0.2, 0)"
proof -
  have c: "\<exists>s. dict_get [(''shape'', JStr ''Oval''), (''r'', JFloat 0.2)] ''shape'' JNull = JStr s
        \<and> py_lower s \<noteq> ''rect''"
    by (simp add: dict_get_def py_lower_def lower_char_def)
  have r: "\<exists>s. dict_get [(''shape'', JStr ''RECT''), (''w'', JFloat 0.2)] ''shape'' JNull = JStr s
        \<and> py_lower s = ''rect''"
    by (simp add: dict_get_def py_lower_def lower_char_def)
  from c hotspot_defaults [of exact_ops "\<lambda>s. None" remdups "[]"
      "[(''shape'', JStr ''Oval''), (''r'', JFloat 0.2)]"]
  have "bbox exact_ops (\<lambda>s. None) [(''shape'', JStr ''Oval''), (''r'', JFloat 0.2)] =
        bbox exact_ops (\<lambda>s. None) [(''shape'', JStr ''circle''),
          (''cx'', dict_get [(''shape'', JStr ''Oval''), (''r'', JFloat 0.2)] ''cx'' (JFloat 0.5)),
          (''cy'', dict_get [(''shape'', JStr ''Oval''), (''r'', JFloat 0.2)] ''cy'' (JFloat 0.5)),
          (''r'', dict_get [(''shape'', JStr ''Oval''), (''r'', JFloat 0.2)] ''r''
                    (JFloat (rnd exact_ops 0.1)))]"
    by blast
  then have c': "bbox exact_ops (\<lambda>s. None) [(''shape'', JStr ''Oval''), (''r'', JFloat 0.2)]
                 = Inr (0.3, 0.3, 0.7, 0.7)"
    by (simp add: bbox_def py_or_def dict_get_def py_lower_def lower_char_def rnd_exact)
  from r hotspot_defaults [of exact_ops "\<lambda>s. None" remdups "[]"
      "[(''shape'', JStr ''RECT''), (''w'', JFloat 0.2)]"]
  have "bbox exact_ops (\<lambda>s. None) [(''shape'', JStr ''RECT''), (''w'', JFloat 0.2)] =
        bbox exact_ops (\<lambda>s. None) [(''shape'', JStr ''rect''),
          (''x'', dict_get [(''shape'', JStr ''RECT''), (''w'', JFloat 0.2)] ''x'' (JInt 0)),
          (''y'', dict_get [(''shape'', JStr ''RECT''), (''w'', JFloat 0.2)] ''y'' (JInt 0)),
          (''w'', dict_get [(''shape'', JStr ''RECT''), (''w'', JFloat 0.2)] ''w'' (JInt 0)),
          (''h'', dict_get [(''shape'', JStr ''RECT''), (''w'', JFloat 0.2)] ''h'' (JInt 0))]"
    by blast
  then have r': "bbox exact_ops (\<lambda>s. None) [(''shape'', JStr ''RECT''), (''w'', JFloat 0.2)]
                 = Inr (0, 0, 0.2, 0)"
    by (simp add: bbox_def py_or_def dict_get_def py_lower_def lower_char_def rnd_exact
        float_limit_def)
  from c c' r r' show ?thesis by blast
qed

text \<open>
  Claim C5, as stated, fails when a candidate lies outside the image. A small circle far
  below the image is kept beside a circle at the lower edge, and clamped onto the edge;
  on a second run the clamped circle lies within merge distance of the other one and the
  two merge, so the second run returns one region where the first returned two.
\<close>

theorem dedupe_hotspots_second_run_merges:
  "dedupe_hotspots exact_ops (\<lambda>s. None) remdups (JArr [JObj edge_circle, JObj far_circle])
     = Inr [edge_circle, far_circle_clamped]
   \<and> dedupe_hotspots exact_ops (\<lambda>s. None) remdups
         (JArr (map JObj [edge_circle, far_circle_clamped]))
     = Inr [edge_circle_merged]"
  by (simp add: eval_hotspots edge_circle_def far_circle_def far_circle_clamped_def
      edge_circle_merged_def)

text \<open>
  Claim C5, amended. When every positional field of every candidate that reads as a
  number lies in the unit interval, so that the clamp moves nothing, \<open>dedupe_hotspots\<close>
  applied to its own output returns that output unchanged, in every arithmetic.
\<close>

theorem dedupe_hotspots_idempotent_in_range:
  assumes "dedupe_hotspots A F S (JArr items) = Inr out"
    and "list_all (in_unit_range A F) (dicts_of items)"
  shows "dedupe_hotspots A F S (JArr (map JObj out)) = Inr out"
proof -
  from assms(1) obtain hs_sorted kept where
    so: "sorted_by_area A F (dicts_of items) = Inr hs_sorted"
    and l: "dedupe_loop A F S [] hs_sorted = Inr kept" and o: "out = take 12 kept"
    by (auto simp: dedupe_hotspots_def py_iter_list and_then_eq_Inr)
  from sorted_by_area_Inr[OF so]
  have st: "set hs_sorted = set (dicts_of items)"
    and sa: "sorted_wrt (\<lambda>x y. x \<ge> y) (map (area_key A F) hs_sorted)" by simp_all
  have r: "\<forall>h \<in> set hs_sorted. in_unit_range A F h"
    using assms(2) st by (simp add: list_all_iff)
  from dedupe_loop_apart[OF l r] sa
  have k1: "\<forall>x \<in> set (map (bbox A F) kept). \<exists>b. x = Inr b"
    and k2: "sorted_wrt (\<lambda>x y. \<not> box_close A y x) (map (bbox A F) kept)"
    and k3: "sorted_wrt (\<lambda>x y. x \<ge> y) (map (area_key A F) kept)" by simp_all
  have o1: "\<forall>x \<in> set (map (bbox A F) out). \<exists>b. x = Inr b"
    using k1 unfolding o by (auto dest: in_set_takeD)
  have o2: "sorted_wrt (\<lambda>x y. \<not> box_close A y x) (map (bbox A F) out)"
    using k2 unfolding o by (simp add: take_map[symmetric])
  have o3: "sorted_wrt (\<lambda>x y. x \<ge> y) (map (area_key A F) out)"
    using k3 unfolding o by (simp add: take_map[symmetric])
  have o4: "list_all (settled A F) out"
    using dedupe_hotspots_settled[OF assms(1)] .
  have o5: "take 12 out = out" unfolding o by simp
  have d: "\<forall>h \<in> set out. \<exists>b. bbox A F h = Inr b" using o1 by auto
  have "dedupe_loop A F S [] out = Inr ([] @ out)"
    by (rule dedupe_loop_fixpoint) (use o4 o1 o2 in simp_all)
  then show ?thesis
    by (simp add: dedupe_hotspots_def py_iter_list dicts_of_dicts sorted_by_area_id[OF d o3] o5)
qed

theorem dedupe_hotspots_idempotent_in_range_witness:
  "dedupe_hotspots exact_ops (\<lambda>s. None) remdups (JArr [JObj row_left, JObj row_mid, JObj row_right])
     = Inr [row_left_merged, row_right]
   \<and> list_all (in_unit_range exact_ops (\<lambda>s. None))
         (dicts_of [JObj row_left, JObj row_mid, JObj row_right])
   \<and> dedupe_hotspots exact_ops (\<lambda>s. None) remdups (JArr (map JObj [row_left_merged, row_right]))
     = Inr [row_left_merged, row_right]"
proof -
  have r: "dedupe_hotspots exact_ops (\<lambda>s. None) remdups
             (JArr [JObj row_left, JObj row_mid, JObj row_right])
     = Inr [row_left_merged, row_right]"
    by (simp add: eval_hotspots row_left_def row_mid_def row_right_def row_left_merged_def)
  have i: "list_all (in_unit_range exact_ops (\<lambda>s. None))
         (dicts_of [JObj row_left, JObj row_mid, JObj row_right])"
    by (simp add: dicts_of_def List.map_filter_def in_unit_range_def geometry_keys_def
        row_left_def row_mid_def row_right_def)
  from dedupe_hotspots_idempotent_in_range [OF r i] r i show ?thesis by blast
qed




end
